theory Spec2Isabelle
  imports Main "HOL-Library.Char_ord" "HOL-Library.List_Lexorder"
    "HOL-Library.Product_Lexorder" "HOL-Library.AList"
begin

section \<open>The XIT test registry (registry/xit.py)\<close>

text \<open>
  The registry keeps, per (suite, case) identity, the expected outcome of a test together
  with the bugs, fixes and notes attached to it.  The program is Python 2: its classes
  are old-style, so \<open>==\<close> and \<open>in\<close> fall back on \<open>__cmp__\<close> where a class has
  no \<open>__eq__\<close>, and strings are byte strings ordered bytewise, which is the order of
  \<open>string\<close> here (characters by code, lists lexicographically).
\<close>

subsection \<open>Exceptions\<close>

datatype error =
    ValueError
  | KeyError
  | AttributeError
  | IndexError
  | NotImplementedError
  | CalledProcessError "int option"
  | SystemExit int

subsection \<open>Colors, str2bool\<close>

datatype Colors = DEFAULT | RED | GREEN | BLUE

text \<open>\<open>str2bool\<close> on a string (lines 69-77); on a bool it is the identity.\<close>

definition str2bool :: "string \<Rightarrow> error + bool" where
  "str2bool val =
     (if val \<in> set [''True'', ''true'', ''1''] then Inr True
      else if val \<in> set [''False'', ''false'', ''0''] then Inr False
      else Inl ValueError)"

text \<open>\<open>str(b).lower()\<close> for a bool \<open>b\<close>.\<close>

definition str_lower :: "bool \<Rightarrow> string" where
  "str_lower b = (if b then ''true'' else ''false'')"

subsection \<open>Record model\<close>

record XITBug =
  bug_type :: string
  url :: string

record XITFix =
  fix_type :: string
  fix_text :: string
  extra_args :: "(string \<times> string) list"

record XITInfo =
  info_type :: string
  info_text :: string

record XITTestCase =
  suite :: string
  name :: string
  status :: bool

record XITTest = XITTestCase +
  t_bugs :: "XITBug list"
  t_info :: "XITInfo list"
  t_fixes :: "XITFix list"

record JUnitTestResult = XITTestCase +
  failures :: "string list"

text \<open>\<open>XITBug.__eq__\<close>, \<open>XITFix.__eq__\<close>, and \<open>==\<close> on \<open>XITInfo\<close>, which has
  only \<open>__cmp__\<close>: equal when \<open>cmp\<close> of the types and of the texts are both 0.\<close>

definition XITBug_eq :: "XITBug \<Rightarrow> XITBug \<Rightarrow> bool" where
  "XITBug_eq a b = (bug_type a = bug_type b \<and> url a = url b)"

definition XITFix_eq :: "XITFix \<Rightarrow> XITFix \<Rightarrow> bool" where
  "XITFix_eq a b = (fix_type a = fix_type b \<and> fix_text a = fix_text b)"

definition XITInfo_eq :: "XITInfo \<Rightarrow> XITInfo \<Rightarrow> bool" where
  "XITInfo_eq a b = (info_type a = info_type b \<and> info_text a = info_text b)"

text \<open>Python's \<open>x in xs\<close> and \<open>xs.remove(x)\<close> for a list, over the class's \<open>==\<close>;
  \<open>remove\<close> deletes the first equal element and raises ValueError when there is none.\<close>

definition py_in :: "('a \<Rightarrow> 'a \<Rightarrow> bool) \<Rightarrow> 'a \<Rightarrow> 'a list \<Rightarrow> bool" where
  "py_in eq x xs = list_ex (\<lambda>y. eq y x) xs"

fun py_remove :: "('a \<Rightarrow> 'a \<Rightarrow> bool) \<Rightarrow> 'a \<Rightarrow> 'a list \<Rightarrow> error + 'a list" where
  "py_remove eq x [] = Inl ValueError"
| "py_remove eq x (y # ys) =
     (if eq y x then Inr ys
      else (case py_remove eq x ys of Inl e \<Rightarrow> Inl e | Inr zs \<Rightarrow> Inr (y # zs)))"

definition addBug :: "XITTest \<Rightarrow> XITBug \<Rightarrow> XITTest" where
  "addBug t bug = (if \<not> py_in XITBug_eq bug (t_bugs t) then t\<lparr>t_bugs := t_bugs t @ [bug]\<rparr> else t)"

definition removeBug :: "XITTest \<Rightarrow> XITBug \<Rightarrow> XITTest" where
  "removeBug t bug =
     (case py_remove XITBug_eq bug (t_bugs t) of
        Inr bs \<Rightarrow> t\<lparr>t_bugs := bs\<rparr>
      | Inl e \<Rightarrow> t)"

definition addInfo :: "XITTest \<Rightarrow> XITInfo \<Rightarrow> XITTest" where
  "addInfo t i = (if \<not> py_in XITInfo_eq i (t_info t) then t\<lparr>t_info := t_info t @ [i]\<rparr> else t)"

definition removeInfo :: "XITTest \<Rightarrow> XITInfo \<Rightarrow> XITTest" where
  "removeInfo t i =
     (case py_remove XITInfo_eq i (t_info t) of
        Inr xs \<Rightarrow> t\<lparr>t_info := xs\<rparr>
      | Inl e \<Rightarrow> t)"

definition addFix :: "XITTest \<Rightarrow> XITFix \<Rightarrow> XITTest" where
  "addFix t f = (if \<not> py_in XITFix_eq f (t_fixes t) then t\<lparr>t_fixes := t_fixes t @ [f]\<rparr> else t)"

definition removeFix :: "XITTest \<Rightarrow> XITFix \<Rightarrow> XITTest" where
  "removeFix t f =
     (case py_remove XITFix_eq f (t_fixes t) of
        Inr xs \<Rightarrow> t\<lparr>t_fixes := xs\<rparr>
      | Inl e \<Rightarrow> t)"

text \<open>\<open>getBugs\<close>, \<open>getInfo\<close>, \<open>getFixes\<close>: \<open>sorted\<close> over \<open>__cmp__\<close>, which compares
  the type and then the text.  Python's sort is stable, as \<open>sort_key\<close> is.\<close>

definition getBugs :: "XITTest \<Rightarrow> XITBug list" where
  "getBugs t = sort_key (\<lambda>b. (bug_type b, url b)) (t_bugs t)"

definition getInfo :: "XITTest \<Rightarrow> XITInfo list" where
  "getInfo t = sort_key (\<lambda>i. (info_type i, info_text i)) (t_info t)"

definition getFixes :: "XITTest \<Rightarrow> XITFix list" where
  "getFixes t = sort_key (\<lambda>f. (fix_type f, fix_text f)) (t_fixes t)"

text \<open>\<open>XITFix.createFromType\<close> and \<open>XITInfo.createFromType\<close>.\<close>

definition XITFix_createFromType ::
  "string \<Rightarrow> string \<Rightarrow> (string \<times> string) list \<Rightarrow> error + XITFix" where
  "XITFix_createFromType type text args =
     (if type = ''git'' then Inr \<lparr>fix_type = ''git'', fix_text = text, extra_args = args\<rparr>
      else if type = ''rpm'' then Inr \<lparr>fix_type = ''rpm'', fix_text = text, extra_args = args\<rparr>
      else Inl ValueError)"

definition XITInfo_createFromType :: "string \<Rightarrow> string \<Rightarrow> error + XITInfo" where
  "XITInfo_createFromType type text =
     (if type = ''text'' then Inr \<lparr>info_type = ''text'', info_text = text\<rparr>
      else if type = ''url'' then Inr \<lparr>info_type = ''url'', info_text = text\<rparr>
      else Inl ValueError)"

text \<open>\<open>XITTest(suite, name, success)\<close> with a bool status.\<close>

definition new_XITTest :: "string \<Rightarrow> string \<Rightarrow> bool \<Rightarrow> XITTest" where
  "new_XITTest s n st =
     \<lparr>suite = s, name = n, status = st, t_bugs = [], t_info = [], t_fixes = []\<rparr>"

subsection \<open>Module versions and the package query\<close>

record XITModuleVersion =
  module :: string
  version :: string
  mv_type :: string
  repo :: "string option"

text \<open>What \<open>subprocess.Popen\<close> hands back: the return code (None while the child has
  not been waited for) and the first line of its standard output.  The call itself is
  the operating system's and is a parameter of the model.\<close>

record process =
  returncode :: "int option"
  stdout_readline :: string

definition is_space :: "char \<Rightarrow> bool" where
  "is_space c = (c \<in> set [CHR '' '', CHR 0x09, CHR 0x0A, CHR 0x0B, CHR 0x0C, CHR 0x0D])"

definition strip :: "string \<Rightarrow> string" where
  "strip s = rev (dropWhile is_space (rev (dropWhile is_space s)))"

text \<open>\<open>XITModuleVersion.compareSystemVersion\<close> (lines 512-522).\<close>

definition compareSystemVersion ::
  "(string \<Rightarrow> process) \<Rightarrow> XITModuleVersion \<Rightarrow> error + (bool \<times> string)" where
  "compareSystemVersion popen mv =
     (if mv_type mv \<noteq> ''rpm'' then Inl NotImplementedError
      else (let p = popen (''rpm -q '' @ module mv) in
        if returncode p \<noteq> Some 0 then Inl (CalledProcessError (returncode p))
        else (let v = strip (stdout_readline p) in Inr (version mv = v, v))))"

subsection \<open>The registry\<close>

text \<open>\<open>tests\<close> is a dict of dicts, suite name to case name to test.  Every iteration
  over it in the program is over \<open>sorted(d.iteritems())\<close>, so the dicts are association
  lists here: \<open>map_of\<close> reads a key, \<open>AList.update\<close> writes one, and the sorted items
  are the list sorted by key (two items of a dict never share a key, so the values are
  never compared).\<close>

type_synonym struct_time = "int \<times> int \<times> int"

type_synonym 'v dict = "(string \<times> 'v) list"

record XITTestRegistry =
  tests :: "XITTest dict dict"
  reg_name :: string
  date :: struct_time
  moduleversions :: "XITModuleVersion list"
  path :: string

definition sorted_items :: "'v dict \<Rightarrow> (string \<times> 'v) list" where
  "sorted_items d = sort_key fst d"

definition has_key :: "'v dict \<Rightarrow> string \<Rightarrow> bool" where
  "has_key d k = (map_of d k \<noteq> None)"

definition new_XITTestRegistry :: "struct_time \<Rightarrow> string \<Rightarrow> string \<Rightarrow> XITTestRegistry" where
  "new_XITTestRegistry localtime nm p =
     \<lparr>tests = [], reg_name = nm, date = localtime, moduleversions = [], path = p\<rparr>"

definition listTestNames :: "XITTestRegistry \<Rightarrow> (string \<times> string \<times> bool) list" where
  "listTestNames r =
     concat (map (\<lambda>(suite_name, s).
                map (\<lambda>(test_name, test). (suite_name, test_name, status test)) (sorted_items s))
             (sorted_items (tests r)))"

definition getTest :: "XITTestRegistry \<Rightarrow> string \<Rightarrow> string \<Rightarrow> XITTest option" where
  "getTest r testsuite testcase =
     (case map_of (tests r) testsuite of
        None \<Rightarrow> None
      | Some s \<Rightarrow> map_of s testcase)"

definition addTest :: "XITTestRegistry \<Rightarrow> XITTest \<Rightarrow> XITTestRegistry" where
  "addTest r test =
     (let ts = (if \<not> has_key (tests r) (suite test)
                then AList.update (suite test) [] (tests r) else tests r);
          s = (case map_of ts (suite test) of None \<Rightarrow> [] | Some d \<Rightarrow> d)
      in r\<lparr>tests := AList.update (suite test) (AList.update (name test) test s) ts\<rparr>)"

subsection \<open>Classification\<close>

type_synonym row = "string \<times> string \<times> string \<times> string \<times> string"

text \<open>\<open>verify_one_result\<close> (lines 708-744).  The expected side is a registry test; the
  actual side is a JUnit result in verify and a registry test in compare, so it is any
  extension of \<open>XITTestCase\<close>.  With both sides None the last branch reads
  \<open>result.suite\<close> of None.\<close>

definition verify_one_result ::
  "XITTest option \<Rightarrow> 'a XITTestCase_scheme option \<Rightarrow> error + (Colors \<times> row)" where
  "verify_one_result test result =
     (case (test, result) of
        (Some t, Some r) \<Rightarrow>
          (if str_lower (status t) \<noteq> str_lower (status r)
           then Inr (if status r = True then GREEN else RED,
                     (''XX'', suite t, name t, str_lower (status r), str_lower (status t)))
           else Inr (DEFAULT,
                     (if status t then ''++'' else ''--'', suite t, name t,
                      str_lower (status r), str_lower (status t))))
      | (Some t, None) \<Rightarrow> Inr (BLUE, (''??'', suite t, name t, [], str_lower (status t)))
      | (None, Some r) \<Rightarrow> Inr (BLUE, (''??'', suite r, name r, str_lower (status r), []))
      | (None, None) \<Rightarrow> Inl AttributeError)"

subsection \<open>Loops that can raise\<close>

fun fold_err :: "('a \<Rightarrow> 's \<Rightarrow> error + 's) \<Rightarrow> 'a list \<Rightarrow> 's \<Rightarrow> error + 's" where
  "fold_err f [] s = Inr s"
| "fold_err f (x # xs) s = (case f x s of Inl e \<Rightarrow> Inl e | Inr s' \<Rightarrow> fold_err f xs s')"

fun map_err :: "('a \<Rightarrow> error + 'b) \<Rightarrow> 'a list \<Rightarrow> error + 'b list" where
  "map_err f [] = Inr []"
| "map_err f (x # xs) =
     (case f x of
        Inl e \<Rightarrow> Inl e
      | Inr y \<Rightarrow> (case map_err f xs of Inl e \<Rightarrow> Inl e | Inr ys \<Rightarrow> Inr (y # ys)))"

subsection \<open>Merge\<close>

text \<open>\<open>merge_registry\<close> (lines 914-918) updates \<open>reg1\<close> in place; here it returns the
  updated registry.  \<open>reg1.addTest(reg2.getTest(suite, name))\<close> would read \<open>.suite\<close> of
  None if the lookup found nothing.\<close>

definition merge_step ::
  "XITTestRegistry \<Rightarrow> string \<times> string \<times> bool \<Rightarrow> XITTestRegistry \<Rightarrow> error + XITTestRegistry" where
  "merge_step reg2 x r1 =
     (case x of (s, n, st) \<Rightarrow>
        if getTest r1 s n = None
        then (case getTest reg2 s n of
                None \<Rightarrow> Inl AttributeError
              | Some t \<Rightarrow> Inr (addTest r1 t))
        else Inr r1)"

definition merge_registry :: "XITTestRegistry \<Rightarrow> XITTestRegistry \<Rightarrow> error + XITTestRegistry" where
  "merge_registry reg1 reg2 = fold_err (merge_step reg2) (listTestNames reg2) reg1"

subsection \<open>Compare\<close>

text \<open>A module version has the attributes \<open>module\<close>, \<open>version\<close>, \<open>repo\<close> and
  \<open>type\<close>; the class is old-style and has no \<open>__getattr__\<close>, so reading \<open>r.name\<close>
  raises AttributeError.\<close>

definition XITModuleVersion_name :: "XITModuleVersion \<Rightarrow> error + string" where
  "XITModuleVersion_name r = Inl AttributeError"

text \<open>\<open>modules.extend(r.module for r in reg2.moduleversions if r.name not in modules)\<close>:
  the generator is consumed element by element and tests the list being extended.\<close>

fun extend_modules :: "string list \<Rightarrow> XITModuleVersion list \<Rightarrow> error + string list" where
  "extend_modules modules [] = Inr modules"
| "extend_modules modules (r # rs) =
     (case XITModuleVersion_name r of
        Inl e \<Rightarrow> Inl e
      | Inr n \<Rightarrow> extend_modules (if n \<notin> set modules then modules @ [module r] else modules) rs)"

text \<open>\<open>get_meta_comparison\<close> (lines 799-809).\<close>

definition get_meta_comparison ::
  "XITTestRegistry \<Rightarrow> XITTestRegistry \<Rightarrow> error + (string \<times> string \<times> string) list" where
  "get_meta_comparison reg1 reg2 =
     (case extend_modules (map module (moduleversions reg1)) (moduleversions reg2) of
        Inl e \<Rightarrow> Inl e
      | Inr modules \<Rightarrow>
          Inr (map (\<lambda>m.
                 (m,
                  concat (map version (filter (\<lambda>mr1. module mr1 = m) (moduleversions reg1))),
                  concat (map version (filter (\<lambda>mr2. module mr2 = m) (moduleversions reg2)))))
               modules))"

text \<open>\<open>compare_registry\<close> (lines 853-869).  The result is what goes to the printer: the
  module rows with their colors (printed when there is at least one), then the test rows
  with theirs.\<close>

definition compare_registry ::
  "XITTestRegistry \<Rightarrow> XITTestRegistry \<Rightarrow>
     error + (((string \<times> string \<times> string) \<times> Colors) list \<times> (Colors \<times> row) list)" where
  "compare_registry reg1 reg2 =
     (case get_meta_comparison reg1 reg2 of
        Inl e \<Rightarrow> Inl e
      | Inr values \<Rightarrow>
          (case map_err (\<lambda>(suite, test, status).
                           verify_one_result (getTest reg1 suite test) (getTest reg2 suite test))
                  (sort (listTestNames reg1)) of
             Inl e \<Rightarrow> Inl e
           | Inr rows \<Rightarrow>
               Inr (map (\<lambda>m. (m, if fst (snd m) \<noteq> snd (snd m) then RED else DEFAULT)) values,
                    rows)))"

subsection \<open>Verify\<close>

text \<open>\<open>check_installed_rpms\<close> (lines 747-754): the rows printed after the two header
  lines, one per module of type rpm.\<close>

definition check_installed_rpms ::
  "(string \<Rightarrow> process) \<Rightarrow> XITTestRegistry \<Rightarrow> error + (string \<times> string \<times> string) list" where
  "check_installed_rpms popen registry =
     map_err (\<lambda>moduleversion.
                case compareSystemVersion popen moduleversion of
                  Inl e \<Rightarrow> Inl e
                | Inr (rc, v) \<Rightarrow> Inr (module moduleversion, version moduleversion, v))
       (filter (\<lambda>moduleversion. mv_type moduleversion = ''rpm'') (moduleversions registry))"

record verify_args =
  regname :: "string option"
  results :: string
  check_all :: bool

definition basename :: "string \<Rightarrow> string" where
  "basename p = rev (takeWhile (\<lambda>c. c \<noteq> CHR ''/'') (rev p))"

text \<open>\<open>s.split(sep)[0]\<close>: the text before the first occurrence of \<open>sep\<close>.\<close>

fun split_first :: "string \<Rightarrow> string \<Rightarrow> string" where
  "split_first sep [] = []"
| "split_first sep (c # cs) =
     (if take (length sep) (c # cs) = sep then [] else c # split_first sep cs)"

text \<open>\<open>load_one_registry\<close>, \<open>load_registries\<close>, \<open>load_registry_from_file\<close> (lines
  1149-1187), on the list that \<open>XITTestRegistry.fromXML\<close> read from the file.\<close>

definition load_registry_from_file :: "XITTestRegistry list \<Rightarrow> error + XITTestRegistry list" where
  "load_registry_from_file registries =
     (if length registries = 0 then Inl (SystemExit 1) else Inr registries)"

definition load_one_registry ::
  "string option \<Rightarrow> XITTestRegistry list \<Rightarrow> error + XITTestRegistry" where
  "load_one_registry rn file_regs =
     (case load_registry_from_file file_regs of
        Inl e \<Rightarrow> Inl e
      | Inr registries \<Rightarrow>
          (case rn of
             Some n \<Rightarrow>
               (case find (\<lambda>r. reg_name r = n) registries of
                  Some r \<Rightarrow> Inr r
                | None \<Rightarrow> Inl (SystemExit 1))
           | None \<Rightarrow> (case registries of r # _ \<Rightarrow> Inr r | [] \<Rightarrow> Inl IndexError)))"

definition truthy :: "string option \<Rightarrow> bool" where
  "truthy v = (case v of None \<Rightarrow> False | Some s \<Rightarrow> s \<noteq> [])"

definition load_registries ::
  "string option \<Rightarrow> XITTestRegistry list \<Rightarrow> error + XITTestRegistry list" where
  "load_registries rn file_regs =
     (if truthy rn
      then (case load_one_registry rn file_regs of Inl e \<Rightarrow> Inl e | Inr r \<Rightarrow> Inr [r])
      else load_registry_from_file file_regs)"

text \<open>The rows of \<open>verify_results\<close> for a chosen registry (lines 781-787):
  \<open>sorted(results)\<close> is by \<open>XITTestCase.__cmp__\<close>, suite then name.\<close>

definition verify_rows ::
  "XITTestRegistry \<Rightarrow> JUnitTestResult list \<Rightarrow> error + (Colors \<times> row) list" where
  "verify_rows registry rs =
     map_err (\<lambda>result. verify_one_result (getTest registry (suite result) (name result)) (Some result))
       (sort_key (\<lambda>r. (suite r, name r)) rs)"

text \<open>\<open>verify_results\<close> (lines 757-789), on the registries read from the registry file
  and the results read from the results file.  First the choice of the registry (lines
  762-774), then the installed-package check when asked for, then the rows.  It returns
  what is printed: the module rows of the check and the test rows.\<close>

definition select_registry :: "verify_args \<Rightarrow> XITTestRegistry list \<Rightarrow> error + XITTestRegistry" where
  "select_registry args file_regs =
     (case load_registries (regname args) file_regs of
        Inl e \<Rightarrow> Inl e
      | Inr registries \<Rightarrow>
          (if \<not> truthy (regname args)
           then (case find (\<lambda>r. reg_name r = split_first ''.xml'' (basename (results args)))
                        registries of
                   None \<Rightarrow> Inl (SystemExit 1)
                 | Some r \<Rightarrow> Inr r)
           else (case registries of r # _ \<Rightarrow> Inr r | [] \<Rightarrow> Inl IndexError)))"

definition verify_results ::
  "(string \<Rightarrow> process) \<Rightarrow> verify_args \<Rightarrow> XITTestRegistry list \<Rightarrow> JUnitTestResult list \<Rightarrow>
     error + ((string \<times> string \<times> string) list \<times> (Colors \<times> row) list)" where
  "verify_results popen args file_regs rs =
     (case select_registry args file_regs of
        Inl e \<Rightarrow> Inl e
      | Inr registry \<Rightarrow>
          (case (if check_all args then check_installed_rpms popen registry else Inr []) of
             Inl e \<Rightarrow> Inl e
           | Inr mods \<Rightarrow>
               (case verify_rows registry rs of
                  Inl e \<Rightarrow> Inl e
                | Inr rows \<Rightarrow> Inr (mods, rows))))"

subsection \<open>The registry document\<close>

text \<open>An element of the parsed document, as \<open>lxml\<close> presents it: tag (with the
  namespace in braces), attributes, text and children in document order.  Parsing bytes
  into elements and serialising elements into bytes are the library's.\<close>

datatype xml = Element (el_tag: string) (el_attrib: "(string \<times> string) list") (el_text: string)
  (el_children: "xml list")

definition XMLNS :: string where
  "XMLNS = ''http://www.x.org/xorg-integration-testing''"

definition xmlns_tag :: "string \<Rightarrow> string" where
  "xmlns_tag t = ''{'' @ XMLNS @ ''}'' @ t"

definition iterchildren :: "xml \<Rightarrow> string \<Rightarrow> xml list" where
  "iterchildren e t = filter (\<lambda>c. el_tag c = t) (el_children e)"

definition find_child :: "xml \<Rightarrow> string \<Rightarrow> xml option" where
  "find_child e t = find (\<lambda>c. el_tag c = t) (el_children e)"

text \<open>\<open>e.attrib[k]\<close> raises KeyError for a missing attribute.\<close>

definition attrib_get :: "(string \<times> string) list \<Rightarrow> string \<Rightarrow> error + string" where
  "attrib_get a k = (case map_of a k of None \<Rightarrow> Inl KeyError | Some v \<Rightarrow> Inr v)"

definition bind_err :: "error + 'a \<Rightarrow> ('a \<Rightarrow> error + 'b) \<Rightarrow> error + 'b" where
  "bind_err m f = (case m of Inl e \<Rightarrow> Inl e | Inr x \<Rightarrow> f x)"

subsection \<open>Decoding: \<open>XITTestRegistry.fromXML\<close> (lines 111-161)\<close>

definition parse_moduleversion :: "xml \<Rightarrow> error + XITModuleVersion" where
  "parse_moduleversion modversion =
     (let type = (case map_of (el_attrib modversion) ''type'' of None \<Rightarrow> ''git'' | Some t \<Rightarrow> t);
          rp = map_of (el_attrib modversion) ''repo''
      in bind_err (attrib_get (el_attrib modversion) ''name'') (\<lambda>n.
           Inr \<lparr>module = n, version = el_text modversion, mv_type = type, repo = rp\<rparr>))"

definition parse_meta ::
  "(string \<Rightarrow> error + struct_time) \<Rightarrow> xml \<Rightarrow> XITTestRegistry \<Rightarrow> error + XITTestRegistry" where
  "parse_meta strptime meta reg =
     bind_err (case find_child meta (xmlns_tag ''date'') of
                 None \<Rightarrow> Inr reg
               | Some d \<Rightarrow> bind_err (strptime (el_text d)) (\<lambda>t. Inr (reg\<lparr>date := t\<rparr>)))
       (\<lambda>reg'. fold_err (\<lambda>modversion r.
                   bind_err (parse_moduleversion modversion) (\<lambda>mv.
                     Inr (r\<lparr>moduleversions := moduleversions r @ [mv]\<rparr>)))
                 (iterchildren meta (xmlns_tag ''moduleversion'')) reg')"

definition parse_bug :: "xml \<Rightarrow> XITTest \<Rightarrow> error + XITTest" where
  "parse_bug bug tcase =
     (let type = (case map_of (el_attrib bug) ''type'' of None \<Rightarrow> ''bugzilla'' | Some t \<Rightarrow> t)
      in Inr (addBug tcase \<lparr>bug_type = type, url = el_text bug\<rparr>))"

definition parse_info :: "xml \<Rightarrow> XITTest \<Rightarrow> error + XITTest" where
  "parse_info testinfo tcase =
     (let type = (case map_of (el_attrib testinfo) ''type'' of None \<Rightarrow> ''text'' | Some t \<Rightarrow> t)
      in bind_err (XITInfo_createFromType type (el_text testinfo)) (\<lambda>i. Inr (addInfo tcase i)))"

definition parse_fix :: "xml \<Rightarrow> XITTest \<Rightarrow> error + XITTest" where
  "parse_fix fix tcase =
     bind_err (attrib_get (el_attrib fix) ''type'') (\<lambda>type.
     bind_err (XITFix_createFromType type (el_text fix) (el_attrib fix)) (\<lambda>f.
       Inr (addFix tcase f)))"

text \<open>One \<open>testcase\<close> element of a \<open>testsuite\<close> element: the arguments of \<open>XITTest\<close>
  are evaluated left to right, then the bugs, the notes and the fixes are attached.\<close>

definition parse_testcase :: "xml \<Rightarrow> xml \<Rightarrow> error + XITTest" where
  "parse_testcase suite_el testcase =
     bind_err (attrib_get (el_attrib suite_el) ''name'') (\<lambda>sn.
     bind_err (attrib_get (el_attrib testcase) ''name'') (\<lambda>tn.
     bind_err (attrib_get (el_attrib testcase) ''success'') (\<lambda>sv.
     bind_err (str2bool sv) (\<lambda>st.
     bind_err (fold_err parse_bug (iterchildren testcase (xmlns_tag ''bug'')) (new_XITTest sn tn st)) (\<lambda>t1.
     bind_err (fold_err parse_info (iterchildren testcase (xmlns_tag ''testinfo'')) t1) (\<lambda>t2.
       fold_err parse_fix (iterchildren testcase (xmlns_tag ''fix'')) t2))))))"

definition parse_suite :: "xml \<Rightarrow> XITTestRegistry \<Rightarrow> error + XITTestRegistry" where
  "parse_suite suite_el reg =
     fold_err (\<lambda>testcase r. bind_err (parse_testcase suite_el testcase) (\<lambda>tcase. Inr (addTest r tcase)))
       (iterchildren suite_el (xmlns_tag ''testcase'')) reg"

definition parse_registry ::
  "(string \<Rightarrow> error + struct_time) \<Rightarrow> struct_time \<Rightarrow> string \<Rightarrow> xml \<Rightarrow> error + XITTestRegistry" where
  "parse_registry strptime localtime filename registry =
     bind_err (attrib_get (el_attrib registry) ''name'') (\<lambda>nm.
     bind_err (fold_err (parse_meta strptime) (iterchildren registry (xmlns_tag ''meta''))
                 (new_XITTestRegistry localtime nm filename)) (\<lambda>reg.
       fold_err parse_suite (iterchildren registry (xmlns_tag ''testsuite'')) reg))"

text \<open>\<open>fromXML\<close> on the root element of the file; \<open>time.strptime\<close> with the format
  \<open>%Y-%m-%d\<close> and the current \<open>time.localtime()\<close> are parameters.\<close>

definition fromXML ::
  "(string \<Rightarrow> error + struct_time) \<Rightarrow> struct_time \<Rightarrow> string \<Rightarrow> xml \<Rightarrow> error + XITTestRegistry list" where
  "fromXML strptime localtime filename registries =
     map_err (parse_registry strptime localtime filename)
       (iterchildren registries (xmlns_tag ''registry''))"

subsection \<open>Encoding: \<open>XITTestRegistry.toXML\<close> (lines 163-226)\<close>

text \<open>\<open>e.set(k, v)\<close> replaces the value of an attribute the element has and appends the
  attribute otherwise.  A truthy \<open>repo\<close> is one that is neither None nor empty.\<close>

definition modversion_element :: "XITModuleVersion \<Rightarrow> xml" where
  "modversion_element modversion =
     Element (xmlns_tag ''moduleversion'')
       ([(''name'', module modversion), (''type'', mv_type modversion)] @
        (if truthy (repo modversion)
         then [(''repo'', (case repo modversion of None \<Rightarrow> [] | Some r \<Rightarrow> r))] else []))
       (version modversion) []"

definition bug_element :: "XITBug \<Rightarrow> xml" where
  "bug_element bug = Element (xmlns_tag ''bug'') [(''type'', bug_type bug)] (url bug) []"

definition fix_attrib :: "XITFix \<Rightarrow> (string \<times> string) list" where
  "fix_attrib fix =
     fold (\<lambda>(arg, value) a. AList.update arg value a) (extra_args fix) [(''type'', fix_type fix)]"

definition fix_element :: "XITFix \<Rightarrow> xml" where
  "fix_element fix = Element (xmlns_tag ''fix'') (fix_attrib fix) (fix_text fix) []"

definition info_element :: "XITInfo \<Rightarrow> xml" where
  "info_element i = Element (xmlns_tag ''testinfo'') [(''type'', info_type i)] (info_text i) []"

definition testcase_element :: "XITTest \<Rightarrow> xml" where
  "testcase_element test =
     Element (xmlns_tag ''testcase'') [(''name'', name test), (''success'', str_lower (status test))] []
       (map bug_element (getBugs test) @ map fix_element (getFixes test) @
        map info_element (getInfo test))"

definition suite_element :: "string \<times> XITTest dict \<Rightarrow> xml" where
  "suite_element x =
     (case x of (suite_name, s) \<Rightarrow>
        Element (xmlns_tag ''testsuite'') [(''name'', suite_name)] []
          (map (\<lambda>(n, test). testcase_element test) (sorted_items s)))"

definition meta_element :: "(struct_time \<Rightarrow> string) \<Rightarrow> XITTestRegistry \<Rightarrow> xml" where
  "meta_element strftime r =
     Element (xmlns_tag ''meta'') [] []
       (Element (xmlns_tag ''date'') [] (strftime (date r)) [] #
        map modversion_element
          (sort_key (\<lambda>mv. (module mv, mv_type mv, version mv)) (moduleversions r)))"

definition registry_element :: "(struct_time \<Rightarrow> string) \<Rightarrow> XITTestRegistry \<Rightarrow> xml" where
  "registry_element strftime r =
     Element (xmlns_tag ''registry'') [(''name'', reg_name r)] []
       (meta_element strftime r # map suite_element (sorted_items (tests r)))"

text \<open>\<open>self.toXML(others)\<close>: the element tree that is serialised; \<open>time.strftime\<close> with
  the format \<open>%Y-%m-%d\<close> is a parameter.\<close>

definition toXML :: "(struct_time \<Rightarrow> string) \<Rightarrow> XITTestRegistry \<Rightarrow> XITTestRegistry list \<Rightarrow> xml" where
  "toXML strftime self others =
     Element (xmlns_tag ''registries'') [] []
       (map (registry_element strftime) (if length others = 0 then [self] else others))"

subsection \<open>Reading an encoded document\<close>

definition element_name :: "xml \<Rightarrow> string" where
  "element_name e = (case map_of (el_attrib e) ''name'' of None \<Rightarrow> [] | Some n \<Rightarrow> n)"

definition element_key :: "xml \<Rightarrow> string \<times> string" where
  "element_key e = (case map_of (el_attrib e) ''type'' of None \<Rightarrow> [] | Some t \<Rightarrow> t, el_text e)"

text \<open>The extra arguments of a fix never contradict its type: \<open>fromXML\<close> passes the
  element's attributes, whose \<open>type\<close> is the fix's, and \<open>add_commit\<close> passes at most a
  \<open>repo\<close>.\<close>

definition fix_args_ok :: "XITFix \<Rightarrow> bool" where
  "fix_args_ok f = list_all (\<lambda>(k, v). k = ''type'' \<longrightarrow> v = fix_type f) (extra_args f)"

text \<open>The order inside an encoded document.  A test case element is ordered when its
  children are its bugs, then its fixes, then its notes, each run in ascending order of
  (type, text); a test suite element, when its children are its test cases in strictly
  ascending order of name and each is ordered; a registry element, when its children
  after the first (the meta element) are its test suites in strictly ascending order of
  name and each is ordered.\<close>

definition testcase_ordered :: "xml \<Rightarrow> bool" where
  "testcase_ordered e =
     (el_children e = iterchildren e (xmlns_tag ''bug'') @ iterchildren e (xmlns_tag ''fix'') @
                      iterchildren e (xmlns_tag ''testinfo'') \<and>
      sorted (map element_key (iterchildren e (xmlns_tag ''bug''))) \<and>
      sorted (map element_key (iterchildren e (xmlns_tag ''fix''))) \<and>
      sorted (map element_key (iterchildren e (xmlns_tag ''testinfo''))))"

definition suite_ordered :: "xml \<Rightarrow> bool" where
  "suite_ordered e =
     (el_children e = iterchildren e (xmlns_tag ''testcase'') \<and>
      sorted (map element_name (el_children e)) \<and> distinct (map element_name (el_children e)) \<and>
      list_all testcase_ordered (el_children e))"

definition registry_ordered :: "xml \<Rightarrow> bool" where
  "registry_ordered e =
     (tl (el_children e) = iterchildren e (xmlns_tag ''testsuite'') \<and>
      sorted (map element_name (iterchildren e (xmlns_tag ''testsuite''))) \<and>
      distinct (map element_name (iterchildren e (xmlns_tag ''testsuite''))) \<and>
      list_all suite_ordered (iterchildren e (xmlns_tag ''testsuite'')))"

subsection \<open>Semantic equality of registry documents\<close>

text \<open>What a registry document says, read off the elements themselves and not through
  the decoder: per registry its name and, for every test case of every test suite, the
  identity (suite name, case name), the success status, and the sets of bugs, fixes and
  notes.  A bug or a note counts by its type (the documented default when the attribute
  is missing) and text, a fix by its type and text with its set of attributes.  Two
  documents are semantically equal when they say the same, registry by registry; the
  order of suites, cases, bugs, fixes and notes within a registry plays no part.\<close>

type_synonym testcase_meaning =
  "string \<times> string \<times> bool option \<times> (string \<times> string) set \<times>
   ((string \<times> string) \<times> (string \<times> string) set) set \<times> (string \<times> string) set"

definition bug_sem :: "xml \<Rightarrow> string \<times> string" where
  "bug_sem e = (case map_of (el_attrib e) ''type'' of None \<Rightarrow> ''bugzilla'' | Some t \<Rightarrow> t, el_text e)"

definition note_sem :: "xml \<Rightarrow> string \<times> string" where
  "note_sem e = (case map_of (el_attrib e) ''type'' of None \<Rightarrow> ''text'' | Some t \<Rightarrow> t, el_text e)"

definition fix_sem :: "xml \<Rightarrow> (string \<times> string) \<times> (string \<times> string) set" where
  "fix_sem e = (element_key e, set (el_attrib e))"

definition success_sem :: "xml \<Rightarrow> bool option" where
  "success_sem e =
     (case map_of (el_attrib e) ''success'' of
        None \<Rightarrow> None
      | Some v \<Rightarrow> (case str2bool v of Inl err \<Rightarrow> None | Inr b \<Rightarrow> Some b))"

definition testcase_sem :: "xml \<Rightarrow> xml \<Rightarrow> testcase_meaning" where
  "testcase_sem suite_el testcase =
     (element_name suite_el, element_name testcase, success_sem testcase,
      bug_sem ` set (iterchildren testcase (xmlns_tag ''bug'')),
      fix_sem ` set (iterchildren testcase (xmlns_tag ''fix'')),
      note_sem ` set (iterchildren testcase (xmlns_tag ''testinfo'')))"

definition registry_sem :: "xml \<Rightarrow> string \<times> testcase_meaning set" where
  "registry_sem registry =
     (element_name registry,
      (\<Union>suite_el \<in> set (iterchildren registry (xmlns_tag ''testsuite'')).
         testcase_sem suite_el ` set (iterchildren suite_el (xmlns_tag ''testcase''))))"

definition document_sem :: "xml \<Rightarrow> (string \<times> testcase_meaning set) list" where
  "document_sem doc = map registry_sem (iterchildren doc (xmlns_tag ''registry''))"

definition semantically_equal :: "xml \<Rightarrow> xml \<Rightarrow> bool" where
  "semantically_equal d1 d2 = (document_sem d1 = document_sem d2)"

subsection \<open>Well-formed registry documents\<close>

text \<open>A well-formed document has at least one registry; every registry, every test
  case and every suite that has a test case is named; every date and success flag can be
  converted; every note type and every fix type is a known one; no attribute occurs twice
  in a fix; a (suite, case) identity occurs once in a registry; and two fixes of a test
  case with the same type and text carry the same attributes.\<close>

definition is_ok :: "error + 'a \<Rightarrow> bool" where
  "is_ok r = (case r of Inl e \<Rightarrow> False | Inr x \<Rightarrow> True)"

definition has_attrib :: "xml \<Rightarrow> string \<Rightarrow> bool" where
  "has_attrib e k = (map_of (el_attrib e) k \<noteq> None)"

definition wf_fix_element :: "xml \<Rightarrow> bool" where
  "wf_fix_element e =
     (distinct (map fst (el_attrib e)) \<and>
      (map_of (el_attrib e) ''type'' = Some ''git'' \<or> map_of (el_attrib e) ''type'' = Some ''rpm''))"

definition wf_info_element :: "xml \<Rightarrow> bool" where
  "wf_info_element e =
     (case map_of (el_attrib e) ''type'' of None \<Rightarrow> True | Some t \<Rightarrow> t = ''text'' \<or> t = ''url'')"

definition fixes_consistent :: "xml list \<Rightarrow> bool" where
  "fixes_consistent es =
     list_all (\<lambda>e. list_all (\<lambda>g. element_key e = element_key g \<longrightarrow> set (el_attrib e) = set (el_attrib g)) es) es"

definition wf_testcase_element :: "xml \<Rightarrow> bool" where
  "wf_testcase_element e =
     (has_attrib e ''name'' \<and> success_sem e \<noteq> None \<and>
      list_all wf_info_element (iterchildren e (xmlns_tag ''testinfo'')) \<and>
      list_all wf_fix_element (iterchildren e (xmlns_tag ''fix'')) \<and>
      fixes_consistent (iterchildren e (xmlns_tag ''fix'')))"

definition wf_suite_element :: "xml \<Rightarrow> bool" where
  "wf_suite_element e =
     ((iterchildren e (xmlns_tag ''testcase'') \<noteq> [] \<longrightarrow> has_attrib e ''name'') \<and>
      list_all wf_testcase_element (iterchildren e (xmlns_tag ''testcase'')))"

definition wf_meta_element :: "(string \<Rightarrow> error + struct_time) \<Rightarrow> xml \<Rightarrow> bool" where
  "wf_meta_element strptime e =
     ((case find_child e (xmlns_tag ''date'') of None \<Rightarrow> True | Some d \<Rightarrow> is_ok (strptime (el_text d))) \<and>
      list_all (\<lambda>mv. has_attrib mv ''name'') (iterchildren e (xmlns_tag ''moduleversion'')))"

definition document_identities :: "xml \<Rightarrow> (string \<times> string) list" where
  "document_identities registry =
     concat (map (\<lambda>suite_el. map (\<lambda>testcase. (element_name suite_el, element_name testcase))
                               (iterchildren suite_el (xmlns_tag ''testcase'')))
               (iterchildren registry (xmlns_tag ''testsuite'')))"

definition wf_registry_element :: "(string \<Rightarrow> error + struct_time) \<Rightarrow> xml \<Rightarrow> bool" where
  "wf_registry_element strptime e =
     (has_attrib e ''name'' \<and>
      list_all (wf_meta_element strptime) (iterchildren e (xmlns_tag ''meta'')) \<and>
      list_all wf_suite_element (iterchildren e (xmlns_tag ''testsuite'')) \<and>
      distinct (document_identities e))"

definition wf_document :: "(string \<Rightarrow> error + struct_time) \<Rightarrow> xml \<Rightarrow> bool" where
  "wf_document strptime doc =
     (iterchildren doc (xmlns_tag ''registry'') \<noteq> [] \<and>
      list_all (wf_registry_element strptime) (iterchildren doc (xmlns_tag ''registry'')))"

text \<open>Encoding a list of registries read from a file, as \<open>merge_add_registries\<close> and
  \<open>create_registries\<close> do: \<open>regs[0].toXML(regs)\<close>.\<close>

definition encode :: "(struct_time \<Rightarrow> string) \<Rightarrow> XITTestRegistry list \<Rightarrow> error + xml" where
  "encode strftime regs =
     (case regs of [] \<Rightarrow> Inl IndexError | r # rs \<Rightarrow> Inr (toXML strftime r regs))"

text \<open>What a test of the record model says when it is emitted under a suite name, and
  the test a well-formed test case element decodes to.\<close>

definition test_sem :: "string \<Rightarrow> XITTest \<Rightarrow> testcase_meaning" where
  "test_sem s t =
     (s, name t, Some (status t),
      (\<lambda>b. (bug_type b, url b)) ` set (t_bugs t),
      (\<lambda>f. ((fix_type f, fix_text f), set (fix_attrib f))) ` set (t_fixes t),
      (\<lambda>i. (info_type i, info_text i)) ` set (t_info t))"

definition decoded_testcase :: "xml \<Rightarrow> xml \<Rightarrow> XITTest" where
  "decoded_testcase suite_el testcase =
     (case parse_testcase suite_el testcase of Inl e \<Rightarrow> new_XITTest [] [] False | Inr t \<Rightarrow> t)"

text \<open>The bug, the note and the fix that a well-formed element decodes to.\<close>

definition decoded_bug :: "xml \<Rightarrow> XITBug" where
  "decoded_bug e = \<lparr>bug_type = fst (bug_sem e), url = snd (bug_sem e)\<rparr>"

definition decoded_info :: "xml \<Rightarrow> XITInfo" where
  "decoded_info e = \<lparr>info_type = fst (note_sem e), info_text = snd (note_sem e)\<rparr>"

definition decoded_fix :: "xml \<Rightarrow> XITFix" where
  "decoded_fix e = \<lparr>fix_type = fst (element_key e), fix_text = el_text e, extra_args = el_attrib e\<rparr>"

subsection \<open>Reading rows, and the registry invariant\<close>

definition row_code :: "row \<Rightarrow> string" where
  "row_code v = fst v"

definition row_identity :: "row \<Rightarrow> string \<times> string" where
  "row_identity v = (fst (snd v), fst (snd (snd v)))"

definition row_status :: "row \<Rightarrow> string" where
  "row_status v = fst (snd (snd (snd v)))"

definition row_expected :: "row \<Rightarrow> string" where
  "row_expected v = snd (snd (snd (snd v)))"

text \<open>What every registry built by the program satisfies: a dict has no key twice, and
  a test is stored under its own suite and name (\<open>addTest\<close> and \<open>_from_list\<close> are the
  only writers of \<open>tests\<close>, and no test's suite or name is assigned after creation).\<close>

definition wf_suite :: "string \<Rightarrow> XITTest dict \<Rightarrow> bool" where
  "wf_suite s d = (distinct (map fst d) \<and> list_all (\<lambda>(n, t). suite t = s \<and> name t = n) d)"

definition wf_registry :: "XITTestRegistry \<Rightarrow> bool" where
  "wf_registry r = (distinct (map fst (tests r)) \<and> list_all (\<lambda>(s, d). wf_suite s d) (tests r))"

definition identities :: "XITTestRegistry \<Rightarrow> (string \<times> string) list" where
  "identities r = map (\<lambda>(s, n, st). (s, n)) (listTestNames r)"

subsection \<open>The same entries in another insertion order\<close>

text \<open>Two collections hold the same entries, whatever the order of insertion, when
  neither has two entries with the same key and both have the same set of entries.  Two
  tests are then the same when identity and status agree and their bugs, fixes and notes
  are the same collections; two dicts, when neither has a key twice, they have the same
  keys, and the values under each key are the same; two registries, when name, date and
  module versions agree and their test dicts are the same dicts of the same dicts.\<close>

definition same_collection :: "('a \<Rightarrow> 'k) \<Rightarrow> 'a list \<Rightarrow> 'a list \<Rightarrow> bool" where
  "same_collection key xs ys = (distinct (map key xs) \<and> distinct (map key ys) \<and> set xs = set ys)"

definition same_test :: "XITTest \<Rightarrow> XITTest \<Rightarrow> bool" where
  "same_test t t' =
     (suite t = suite t' \<and> name t = name t' \<and> status t = status t' \<and>
      same_collection (\<lambda>b. (bug_type b, url b)) (t_bugs t) (t_bugs t') \<and>
      same_collection (\<lambda>f. (fix_type f, fix_text f)) (t_fixes t) (t_fixes t') \<and>
      same_collection (\<lambda>i. (info_type i, info_text i)) (t_info t) (t_info t'))"

definition same_dict :: "('v \<Rightarrow> 'v \<Rightarrow> bool) \<Rightarrow> 'v dict \<Rightarrow> 'v dict \<Rightarrow> bool" where
  "same_dict rel d d' =
     (distinct (map fst d) \<and> distinct (map fst d') \<and>
      list_all (\<lambda>kv. case map_of d' (fst kv) of None \<Rightarrow> False | Some v' \<Rightarrow> rel (snd kv) v') d \<and>
      list_all (\<lambda>kv. map_of d (fst kv) \<noteq> None) d')"

definition same_registry :: "XITTestRegistry \<Rightarrow> XITTestRegistry \<Rightarrow> bool" where
  "same_registry r r' =
     (reg_name r = reg_name r' \<and> date r = date r' \<and> moduleversions r = moduleversions r' \<and>
      same_dict (same_dict same_test) (tests r) (tests r'))"

text \<open>Every fix of every test of a registry has extra arguments that agree with its
  type.\<close>

definition fixes_ok_registry :: "XITTestRegistry \<Rightarrow> bool" where
  "fixes_ok_registry r =
     list_all (\<lambda>sd. list_all (\<lambda>nt. list_all fix_args_ok (t_fixes (snd nt))) (snd sd)) (tests r)"

subsection \<open>Example registries\<close>

text \<open>The merge scenario: A holds S.T1 expected to pass; B holds S.T1 expected to fail
  and S.T2 expected to pass.\<close>

definition regA :: XITTestRegistry where
  "regA = addTest (new_XITTestRegistry (2013, 1, 31) ''A'' ''a.xml'') (new_XITTest ''S'' ''T1'' True)"

definition regB :: XITTestRegistry where
  "regB = addTest (addTest (new_XITTestRegistry (2013, 2, 28) ''A'' ''b.xml'')
            (new_XITTest ''S'' ''T2'' True)) (new_XITTest ''S'' ''T1'' False)"

text \<open>A run whose results file is \<open>/tmp/A.xml\<close>: S.T3 passed, S.T1 failed; S.T2 was not
  run.  No registry name is given, so the registry named A is chosen.\<close>

definition live_results :: "JUnitTestResult list" where
  "live_results =
     [\<lparr>suite = ''S'', name = ''T3'', status = True, failures = []\<rparr>,
      \<lparr>suite = ''S'', name = ''T1'', status = False, failures = [''boom'']\<rparr>]"

definition args_A :: "bool \<Rightarrow> verify_args" where
  "args_A chk = \<lparr>regname = None, results = ''/tmp/A.xml'', check_all = chk\<rparr>"

text \<open>A process as \<open>Popen\<close> returns it, not waited for: no return code yet.\<close>

definition popen_fresh :: "string \<Rightarrow> process" where
  "popen_fresh command = \<lparr>returncode = None, stdout_readline = []\<rparr>"

text \<open>The module-version scenario: moduleX at 1.0 in the first registry and at 1.1 in
  the second.\<close>

definition regX1 :: XITTestRegistry where
  "regX1 = (new_XITTestRegistry (2013, 1, 31) ''X'' ''x1.xml'')
     \<lparr>moduleversions := [\<lparr>module = ''moduleX'', version = ''1.0'', mv_type = ''git'', repo = None\<rparr>]\<rparr>"

definition regX2 :: XITTestRegistry where
  "regX2 = (new_XITTestRegistry (2013, 2, 28) ''X'' ''x2.xml'')
     \<lparr>moduleversions := [\<lparr>module = ''moduleX'', version = ''1.1'', mv_type = ''git'', repo = None\<rparr>]\<rparr>"

text \<open>Registry A with one recorded package version.\<close>

definition regR :: XITTestRegistry where
  "regR = regA\<lparr>moduleversions :=
     [\<lparr>module = ''xorg-x11-server-Xorg'', version = ''xorg-x11-server-Xorg-1.13.0-1.fc18'',
       mv_type = ''rpm'', repo = None\<rparr>]\<rparr>"

text \<open>Two empty registries, named b and a, and a fixed date format.\<close>

definition reg_named :: "string \<Rightarrow> XITTestRegistry" where
  "reg_named nm = new_XITTestRegistry (2013, 1, 31) nm ''stdin''"

definition strftime_fixed :: "struct_time \<Rightarrow> string" where
  "strftime_fixed t = ''2013-01-31''"

text \<open>A registry E built twice from the same entries: three tests in two suites,
  one of them with two bugs, two fixes and two notes, inserted in one order in \<open>regE\<close>
  and in another in \<open>regE_other\<close>.\<close>

definition bug1 :: XITBug where
  "bug1 = \<lparr>bug_type = ''bugzilla'', url = ''http://bugs/1''\<rparr>"

definition bug2 :: XITBug where
  "bug2 = \<lparr>bug_type = ''bugzilla'', url = ''http://bugs/2''\<rparr>"

definition fix_git :: XITFix where
  "fix_git = \<lparr>fix_type = ''git'', fix_text = ''deadbeef'',
               extra_args = [(''type'', ''git''), (''repo'', ''xserver'')]\<rparr>"

definition fix_rpm :: XITFix where
  "fix_rpm = \<lparr>fix_type = ''rpm'', fix_text = ''xorg-x11-server-1.23-4.fc18'', extra_args = []\<rparr>"

definition note_text :: XITInfo where
  "note_text = \<lparr>info_type = ''text'', info_text = ''flaky''\<rparr>"

definition note_url :: XITInfo where
  "note_url = \<lparr>info_type = ''url'', info_text = ''http://notes/1''\<rparr>"

definition test_full :: XITTest where
  "test_full =
     addInfo (addInfo (addFix (addFix (addBug (addBug (new_XITTest ''S'' ''T1'' True) bug2) bug1)
       fix_rpm) fix_git) note_url) note_text"

definition test_full_other :: XITTest where
  "test_full_other =
     addInfo (addInfo (addFix (addFix (addBug (addBug (new_XITTest ''S'' ''T1'' True) bug1) bug2)
       fix_git) fix_rpm) note_text) note_url"

definition regE :: XITTestRegistry where
  "regE = addTest (addTest (addTest (reg_named ''E'') (new_XITTest ''Z'' ''T9'' False)) test_full)
            (new_XITTest ''S'' ''T0'' True)"

definition regE_other :: XITTestRegistry where
  "regE_other = addTest (addTest (addTest (reg_named ''E'') (new_XITTest ''S'' ''T0'' True))
            test_full_other) (new_XITTest ''Z'' ''T9'' False)"

text \<open>The document that registry E encodes to.\<close>

definition docE :: xml where
  "docE =
     Element (xmlns_tag ''registries'') [] []
       [Element (xmlns_tag ''registry'') [(''name'', ''E'')] []
          [Element (xmlns_tag ''meta'') [] []
             [Element (xmlns_tag ''date'') [] ''2013-01-31'' []],
           Element (xmlns_tag ''testsuite'') [(''name'', ''S'')] []
             [Element (xmlns_tag ''testcase'') [(''name'', ''T0''), (''success'', ''true'')] [] [],
              Element (xmlns_tag ''testcase'') [(''name'', ''T1''), (''success'', ''true'')] []
                [Element (xmlns_tag ''bug'') [(''type'', ''bugzilla'')] ''http://bugs/1'' [],
                 Element (xmlns_tag ''bug'') [(''type'', ''bugzilla'')] ''http://bugs/2'' [],
                 Element (xmlns_tag ''fix'') [(''type'', ''git''), (''repo'', ''xserver'')] ''deadbeef'' [],
                 Element (xmlns_tag ''fix'') [(''type'', ''rpm'')] ''xorg-x11-server-1.23-4.fc18'' [],
                 Element (xmlns_tag ''testinfo'') [(''type'', ''text'')] ''flaky'' [],
                 Element (xmlns_tag ''testinfo'') [(''type'', ''url'')] ''http://notes/1'' []]],
           Element (xmlns_tag ''testsuite'') [(''name'', ''Z'')] []
             [Element (xmlns_tag ''testcase'') [(''name'', ''T9''), (''success'', ''false'')] [] []]]]"

text \<open>A document for registry E as a person might write it: suites and cases out of
  order, the type of a bug and of a note left to its default, success flags written as
  True, 1 and 0.  The date format of the example reads the one date it contains.\<close>

definition strptime_fixed :: "string \<Rightarrow> error + struct_time" where
  "strptime_fixed s = (if s = ''2013-01-31'' then Inr (2013, 1, 31) else Inl ValueError)"

definition docE_written :: xml where
  "docE_written =
     Element (xmlns_tag ''registries'') [] []
       [Element (xmlns_tag ''registry'') [(''name'', ''E'')] []
          [Element (xmlns_tag ''testsuite'') [(''name'', ''Z'')] []
             [Element (xmlns_tag ''testcase'') [(''name'', ''T9''), (''success'', ''0'')] [] []],
           Element (xmlns_tag ''meta'') [] []
             [Element (xmlns_tag ''date'') [] ''2013-01-31'' []],
           Element (xmlns_tag ''testsuite'') [(''name'', ''S'')] []
             [Element (xmlns_tag ''testcase'') [(''name'', ''T1''), (''success'', ''True'')] []
                [Element (xmlns_tag ''testinfo'') [(''type'', ''url'')] ''http://notes/1'' [],
                 Element (xmlns_tag ''fix'') [(''type'', ''rpm'')] ''xorg-x11-server-1.23-4.fc18'' [],
                 Element (xmlns_tag ''bug'') [] ''http://bugs/2'' [],
                 Element (xmlns_tag ''fix'') [(''type'', ''git''), (''repo'', ''xserver'')] ''deadbeef'' [],
                 Element (xmlns_tag ''bug'') [(''type'', ''bugzilla'')] ''http://bugs/1'' [],
                 Element (xmlns_tag ''testinfo'') [] ''flaky'' []],
              Element (xmlns_tag ''testcase'') [(''name'', ''T0''), (''success'', ''1'')] [] []]]]"

section \<open>Properties\<close>

subsection \<open>Sub-collections of a test case\<close>

lemma py_remove_absent: "\<not> py_in eq x xs \<Longrightarrow> py_remove eq x xs = Inl ValueError"
  by (induction xs) (auto simp: py_in_def)

lemma py_remove_error: "py_remove eq x xs = Inl e \<Longrightarrow> e = ValueError"
  by (induction xs) (auto split: if_splits sum.splits)

lemma py_in_snoc: "eq x x \<Longrightarrow> py_in eq x (xs @ [x])"
  by (simp add: py_in_def)

text \<open>
  C9.  For a test case and a bug, a fix or a note: adding an entry equal (by its dedup
  key) to one already attached leaves the collection's size, and the whole test case,
  unchanged, so adding the same entry twice adds it once; removing an entry to which none
  attached is equal makes \<open>list.remove\<close> raise ValueError, which is caught, and leaves
  the test case unchanged.
\<close>

theorem dedup_add_remove:
  "(py_in XITBug_eq b (t_bugs t) \<longrightarrow>
      length (t_bugs (addBug t b)) = length (t_bugs t) \<and> addBug t b = t) \<and>
   (py_in XITFix_eq f (t_fixes t) \<longrightarrow>
      length (t_fixes (addFix t f)) = length (t_fixes t) \<and> addFix t f = t) \<and>
   (py_in XITInfo_eq i (t_info t) \<longrightarrow>
      length (t_info (addInfo t i)) = length (t_info t) \<and> addInfo t i = t) \<and>
   addBug (addBug t b) b = addBug t b \<and>
   addFix (addFix t f) f = addFix t f \<and>
   addInfo (addInfo t i) i = addInfo t i \<and>
   (\<not> py_in XITBug_eq b (t_bugs t) \<longrightarrow>
      py_remove XITBug_eq b (t_bugs t) = Inl ValueError \<and> removeBug t b = t) \<and>
   (\<not> py_in XITFix_eq f (t_fixes t) \<longrightarrow>
      py_remove XITFix_eq f (t_fixes t) = Inl ValueError \<and> removeFix t f = t) \<and>
   (\<not> py_in XITInfo_eq i (t_info t) \<longrightarrow>
      py_remove XITInfo_eq i (t_info t) = Inl ValueError \<and> removeInfo t i = t)"
  by (simp add: addBug_def addFix_def addInfo_def removeBug_def removeFix_def removeInfo_def
        py_remove_absent py_in_snoc XITBug_eq_def XITFix_eq_def XITInfo_eq_def)

theorem dedup_add_remove_witness:
  "py_in XITBug_eq \<lparr>bug_type = ''bugzilla'', url = ''http://bugs/1''\<rparr>
     (t_bugs (addBug (new_XITTest ''S'' ''T'' True) \<lparr>bug_type = ''bugzilla'', url = ''http://bugs/1''\<rparr>)) \<and>
   length (t_bugs (addBug (addBug (new_XITTest ''S'' ''T'' True)
       \<lparr>bug_type = ''bugzilla'', url = ''http://bugs/1''\<rparr>)
       \<lparr>bug_type = ''bugzilla'', url = ''http://bugs/1''\<rparr>)) = 1 \<and>
   \<not> py_in XITFix_eq \<lparr>fix_type = ''git'', fix_text = ''deadbeef'', extra_args = []\<rparr>
     (t_fixes (addBug (new_XITTest ''S'' ''T'' True) \<lparr>bug_type = ''bugzilla'', url = ''http://bugs/1''\<rparr>)) \<and>
   removeFix (addBug (new_XITTest ''S'' ''T'' True) \<lparr>bug_type = ''bugzilla'', url = ''http://bugs/1''\<rparr>)
       \<lparr>fix_type = ''git'', fix_text = ''deadbeef'', extra_args = []\<rparr>
     = addBug (new_XITTest ''S'' ''T'' True) \<lparr>bug_type = ''bugzilla'', url = ''http://bugs/1''\<rparr>"
  using dedup_add_remove [of "\<lparr>bug_type = ''bugzilla'', url = ''http://bugs/1''\<rparr>"
      "addBug (new_XITTest ''S'' ''T'' True) \<lparr>bug_type = ''bugzilla'', url = ''http://bugs/1''\<rparr>"
      "\<lparr>fix_type = ''git'', fix_text = ''deadbeef'', extra_args = []\<rparr>"]
  by (simp add: addBug_def new_XITTest_def py_in_def XITBug_eq_def XITFix_eq_def)

subsection \<open>Classification\<close>

text \<open>
  C1.  For a pair (expected test, actual result) with at least one side present,
  \<open>verify_one_result\<close> raises nothing and returns one status code among ++, --, XX and
  ??: with both sides present and equal statuses, ++ when the expected status is true and
  -- when it is false; with both present and different statuses, XX; with exactly one side
  absent, ??.
\<close>

theorem classify_total:
  "test \<noteq> None \<or> result \<noteq> None \<Longrightarrow>
   (\<exists>color v.
      verify_one_result test result = Inr (color, v) \<and>
      row_code v \<in> {''++'', ''--'', ''XX'', ''??''} \<and>
      (\<forall>t r. test = Some t \<and> result = Some r \<longrightarrow>
         (status t = status r \<longrightarrow> row_code v = (if status t then ''++'' else ''--'')) \<and>
         (status t \<noteq> status r \<longrightarrow> row_code v = ''XX'')) \<and>
      ((test = None) \<noteq> (result = None) \<longrightarrow> row_code v = ''??''))"
  by (cases test; cases result) (auto simp: verify_one_result_def str_lower_def row_code_def)

theorem classify_total_witness:
  "verify_one_result (Some (new_XITTest ''SuiteA'' ''Test1'' True))
     (Some \<lparr>suite = ''SuiteA'', name = ''Test1'', status = False, failures = [''boom'']\<rparr>)
     = Inr (RED, (''XX'', ''SuiteA'', ''Test1'', ''false'', ''true'')) \<and>
   verify_one_result (Some (new_XITTest ''SuiteA'' ''Test1'' True)) (None :: JUnitTestResult option)
     = Inr (BLUE, (''??'', ''SuiteA'', ''Test1'', [], ''true''))"
  using classify_total [of "Some (new_XITTest ''SuiteA'' ''Test1'' True)" "None :: JUnitTestResult option"]
    classify_total [of "Some (new_XITTest ''SuiteA'' ''Test1'' True)"
      "Some \<lparr>suite = ''SuiteA'', name = ''Test1'', status = False, failures = [''boom'']\<rparr>"]
  by (simp add: verify_one_result_def new_XITTest_def str_lower_def)

subsection \<open>Lookup and insertion in a registry\<close>

lemma getTest_addTest:
  "getTest (addTest r t) s n = (if s = suite t \<and> n = name t then Some t else getTest r s n)"
  by (auto simp: getTest_def addTest_def has_key_def Let_def update_conv' split: option.splits)

lemma set_sorted_items: "set (sorted_items d) = set d"
  by (simp add: sorted_items_def)

lemma listTestNames_iff:
  "(s, n, st) \<in> set (listTestNames r) \<longleftrightarrow>
     (\<exists>d t. (s, d) \<in> set (tests r) \<and> (n, t) \<in> set d \<and> status t = st)"
  unfolding listTestNames_def by (auto simp: image_iff split_beta set_sorted_items) (force+)

lemma listTestNames_getTest:
  assumes "wf_registry r" "(s, n, st) \<in> set (listTestNames r)"
  shows "\<exists>t. getTest r s n = Some t \<and> suite t = s \<and> name t = n \<and> status t = st"
proof -
  from assms(2) obtain d t where d: "(s, d) \<in> set (tests r)" and t: "(n, t) \<in> set d"
    and st: "status t = st" by (auto simp: listTestNames_iff)
  from assms(1) d have 1: "map_of (tests r) s = Some d"
    by (simp add: wf_registry_def)
  from assms(1) d have "distinct (map fst d)" "list_all (\<lambda>(n, t). suite t = s \<and> name t = n) d"
    by (auto simp: wf_registry_def wf_suite_def list_all_iff)
  with t have "map_of d n = Some t" "suite t = s" "name t = n"
    by (auto simp: list_all_iff)
  with 1 st show ?thesis by (simp add: getTest_def)
qed

lemma getTest_listTestNames:
  assumes "getTest r s n = Some t"
  shows "(s, n, status t) \<in> set (listTestNames r)"
  using assms by (auto simp: getTest_def listTestNames_iff split: option.splits dest!: map_of_SomeD)

lemma in_set_updateD:
  "(k', v') \<in> set (AList.update k v al) \<Longrightarrow> (k' = k \<and> v' = v) \<or> (k', v') \<in> set al"
  by (induction al) (auto split: if_splits)

lemma wf_registry_new: "wf_registry (new_XITTestRegistry lt nm p)"
  by (simp add: wf_registry_def new_XITTestRegistry_def)

lemma wf_registry_iff:
  "wf_registry r \<longleftrightarrow>
     distinct (map fst (tests r)) \<and> (\<forall>s e. (s, e) \<in> set (tests r) \<longrightarrow> wf_suite s e)"
  by (auto simp: wf_registry_def list_all_iff)

lemma wf_suite_update:
  "wf_suite (suite t) d \<Longrightarrow> wf_suite (suite t) (AList.update (name t) t d)"
  by (auto simp: wf_suite_def list_all_iff distinct_update dest!: in_set_updateD)

lemma wf_suite_Nil: "wf_suite s []"
  by (simp add: wf_suite_def)

lemma wf_registry_addTest:
  assumes "wf_registry r"
  shows "wf_registry (addTest r t)"
proof -
  define ts where "ts = (if \<not> has_key (tests r) (suite t)
                then AList.update (suite t) [] (tests r) else tests r)"
  define d where "d = (case map_of ts (suite t) of None \<Rightarrow> [] | Some d \<Rightarrow> d)"
  have ts1: "distinct (map fst ts)"
    using assms by (simp add: ts_def wf_registry_iff distinct_update)
  have ts2: "wf_suite s e" if "(s, e) \<in> set ts" for s e
  proof -
    from that have "e = [] \<or> (s, e) \<in> set (tests r)"
      by (auto simp: ts_def split: if_splits dest!: in_set_updateD)
    then show ?thesis using assms wf_suite_Nil by (auto simp: wf_registry_iff)
  qed
  have "d = [] \<or> (suite t, d) \<in> set ts"
    by (auto simp: d_def split: option.splits dest!: map_of_SomeD)
  then have d: "wf_suite (suite t) d"
    using ts2 [of "suite t" d] wf_suite_Nil by auto
  have tests: "tests (addTest r t) = AList.update (suite t) (AList.update (name t) t d) ts"
    unfolding addTest_def ts_def d_def Let_def by simp
  have "wf_suite s e" if "(s, e) \<in> set (tests (addTest r t))" for s e
  proof -
    from that have "(s = suite t \<and> e = AList.update (name t) t d) \<or> (s, e) \<in> set ts"
      unfolding tests by (rule in_set_updateD)
    then show ?thesis using wf_suite_update [OF d] ts2 by auto
  qed
  moreover have "distinct (map fst (tests (addTest r t)))"
    unfolding tests using ts1 by (simp add: distinct_update)
  ultimately show ?thesis
    unfolding wf_registry_iff by simp
qed

subsection \<open>Merge\<close>

lemma merge_fold:
  assumes "\<forall>x \<in> set xs. \<exists>t. getTest reg2 (fst x) (fst (snd x)) = Some t \<and>
              suite t = fst x \<and> name t = fst (snd x)"
  shows "\<exists>M. fold_err (merge_step reg2) xs r1 = Inr M \<and>
           (\<forall>s n. getTest M s n =
              (case getTest r1 s n of
                 Some t \<Rightarrow> Some t
               | None \<Rightarrow> if (\<exists>st. (s, n, st) \<in> set xs) then getTest reg2 s n else None))"
  using assms
proof (induction xs arbitrary: r1)
  case Nil
  then show ?case by (auto split: option.splits)
next
  case (Cons x xs)
  obtain s n st where x: "x = (s, n, st)" by (cases x)
  from Cons.prems x obtain t where t: "getTest reg2 s n = Some t" "suite t = s" "name t = n"
    by auto
  define r' where "r' = (if getTest r1 s n = None then addTest r1 t else r1)"
  have step: "merge_step reg2 x r1 = Inr r'"
    by (simp add: merge_step_def x t r'_def)
  have get: "getTest r' a b = (if a = s \<and> b = n \<and> getTest r1 s n = None then Some t else getTest r1 a b)"
    for a b
    by (simp add: r'_def getTest_addTest t)
  have rest: "\<forall>x \<in> set xs. \<exists>t. getTest reg2 (fst x) (fst (snd x)) = Some t \<and>
              suite t = fst x \<and> name t = fst (snd x)"
    using Cons.prems by simp
  from Cons.IH [OF rest, of r'] obtain M where M1: "fold_err (merge_step reg2) xs r' = Inr M"
    and M2: "\<And>a b. getTest M a b =
              (case getTest r' a b of
                 Some t \<Rightarrow> Some t
               | None \<Rightarrow> if (\<exists>st. (a, b, st) \<in> set xs) then getTest reg2 a b else None)"
    by blast
  have "fold_err (merge_step reg2) (x # xs) r1 = Inr M" by (simp add: step M1)
  moreover have "getTest M a b =
              (case getTest r1 a b of
                 Some t \<Rightarrow> Some t
               | None \<Rightarrow> if (\<exists>st. (a, b, st) \<in> set (x # xs)) then getTest reg2 a b else None)" for a b
    unfolding M2 get x using t(1) by (auto split: option.splits)
  ultimately show ?case by blast
qed

lemma merge_fold_noop:
  "\<forall>x \<in> set xs. getTest r (fst x) (fst (snd x)) \<noteq> None \<Longrightarrow>
   fold_err (merge_step reg2) xs r = Inr r"
  by (induction xs) (auto simp: merge_step_def split: prod.splits)

lemma listTestNames_found:
  assumes "wf_registry r"
  shows "\<forall>x \<in> set (listTestNames r). \<exists>t. getTest r (fst x) (fst (snd x)) = Some t \<and>
              suite t = fst x \<and> name t = fst (snd x)"
proof
  fix x assume x: "x \<in> set (listTestNames r)"
  obtain s n st where "x = (s, n, st)" by (cases x)
  with listTestNames_getTest [OF assms, of s n st] x show
    "\<exists>t. getTest r (fst x) (fst (snd x)) = Some t \<and> suite t = fst x \<and> name t = fst (snd x)"
    by auto
qed

lemma merge_registry_getTest:
  assumes "wf_registry B"
  shows "\<exists>M. merge_registry A B = Inr M \<and>
           (\<forall>s n. getTest M s n =
              (case getTest A s n of Some t \<Rightarrow> Some t | None \<Rightarrow> getTest B s n))"
proof -
  from merge_fold [OF listTestNames_found [OF assms], of A]
  obtain M where M: "merge_registry A B = Inr M"
    "\<And>s n. getTest M s n =
       (case getTest A s n of
          Some t \<Rightarrow> Some t
        | None \<Rightarrow> if (\<exists>st. (s, n, st) \<in> set (listTestNames B)) then getTest B s n else None)"
    unfolding merge_registry_def by blast
  have "getTest M s n = (case getTest A s n of Some t \<Rightarrow> Some t | None \<Rightarrow> getTest B s n)" for s n
  proof (cases "getTest B s n")
    case None
    then show ?thesis by (simp add: M(2) split: option.splits)
  next
    case (Some t)
    then have "(s, n, status t) \<in> set (listTestNames B)" by (rule getTest_listTestNames)
    then have "\<exists>st. (s, n, st) \<in> set (listTestNames B)" by blast
    then show ?thesis by (simp add: M(2))
  qed
  with M(1) show ?thesis by blast
qed

lemma merge_fold_wf:
  "wf_registry r1 \<Longrightarrow> fold_err (merge_step reg2) xs r1 = Inr M \<Longrightarrow> wf_registry M"
proof (induction xs arbitrary: r1)
  case Nil
  then show ?case by simp
next
  case (Cons x xs)
  from Cons.prems(2) obtain r' where r': "merge_step reg2 x r1 = Inr r'"
    "fold_err (merge_step reg2) xs r' = Inr M"
    by (auto split: sum.splits)
  from r'(1) Cons.prems(1) have "wf_registry r'"
    by (auto simp: merge_step_def wf_registry_addTest split: prod.splits if_splits option.splits)
  then show ?case using r'(2) by (rule Cons.IH)
qed

lemma wf_registry_merge:
  "wf_registry A \<Longrightarrow> merge_registry A B = Inr M \<Longrightarrow> wf_registry M"
  unfolding merge_registry_def by (rule merge_fold_wf)

lemma wf_regA: "wf_registry regA"
  unfolding regA_def by (intro wf_registry_addTest wf_registry_new)

lemma wf_regB: "wf_registry regB"
  unfolding regB_def by (intro wf_registry_addTest wf_registry_new)

lemma merge_regA_regB:
  "merge_registry regA regB = Inr (addTest regA (new_XITTest ''S'' ''T2'' True))"
  by (simp add: merge_registry_def regA_def regB_def addTest_def new_XITTestRegistry_def new_XITTest_def
     listTestNames_def sorted_items_def has_key_def merge_step_def getTest_def)

text \<open>
  C2.  Merge does not touch the first registry's entries: for every identity (suite,
  case) that registry A holds, \<open>merge_registry A B\<close> returns a registry in which that
  identity still has A's entry (the same record: status, bugs, fixes, notes), whatever B
  holds.
\<close>

theorem merge_non_destructive:
  "wf_registry B \<Longrightarrow> getTest A s n = Some t \<Longrightarrow>
   \<exists>M. merge_registry A B = Inr M \<and> getTest M s n = Some t"
  using merge_registry_getTest [of B A] by auto

theorem merge_non_destructive_witness:
  "wf_registry regB \<and> getTest regA ''S'' ''T1'' = Some (new_XITTest ''S'' ''T1'' True) \<and>
   getTest regB ''S'' ''T1'' = Some (new_XITTest ''S'' ''T1'' False) \<and>
   (\<exists>M. merge_registry regA regB = Inr M \<and> getTest M ''S'' ''T1'' = Some (new_XITTest ''S'' ''T1'' True))"
proof -
  have a: "getTest regA ''S'' ''T1'' = Some (new_XITTest ''S'' ''T1'' True)"
    by (simp add: regA_def getTest_addTest new_XITTest_def)
  have b: "getTest regB ''S'' ''T1'' = Some (new_XITTest ''S'' ''T1'' False)"
    by (simp add: regB_def getTest_addTest new_XITTest_def)
  show ?thesis
    using merge_non_destructive [OF wf_regB a] wf_regB a b by simp
qed

text \<open>
  C5.  Merge is idempotent: merging a registry into itself returns it unchanged, and
  merging B a second time into the result of merging B into A returns that result
  unchanged.
\<close>

theorem merge_idempotent:
  assumes "wf_registry A" "wf_registry B"
  shows "merge_registry A A = Inr A \<and>
         (\<exists>M. merge_registry A B = Inr M \<and> merge_registry M B = Inr M)"
proof
  have "\<forall>x \<in> set (listTestNames A). getTest A (fst x) (fst (snd x)) \<noteq> None"
    using listTestNames_found [OF assms(1)] by auto
  then show "merge_registry A A = Inr A"
    unfolding merge_registry_def by (rule merge_fold_noop)
next
  from merge_registry_getTest [OF assms(2), of A] obtain M where M: "merge_registry A B = Inr M"
    "\<And>s n. getTest M s n = (case getTest A s n of Some t \<Rightarrow> Some t | None \<Rightarrow> getTest B s n)"
    by blast
  have "\<forall>x \<in> set (listTestNames B). getTest M (fst x) (fst (snd x)) \<noteq> None"
    using listTestNames_found [OF assms(2)] by (auto simp: M(2) split: option.splits)
  then have "merge_registry M B = Inr M"
    unfolding merge_registry_def by (rule merge_fold_noop)
  with M(1) show "\<exists>M. merge_registry A B = Inr M \<and> merge_registry M B = Inr M" by blast
qed

theorem merge_idempotent_witness:
  "wf_registry regA \<and> wf_registry regB \<and> merge_registry regA regA = Inr regA \<and>
   merge_registry regA regB = Inr (addTest regA (new_XITTest ''S'' ''T2'' True)) \<and>
   merge_registry (addTest regA (new_XITTest ''S'' ''T2'' True)) regB
     = Inr (addTest regA (new_XITTest ''S'' ''T2'' True))"
  using merge_idempotent [OF wf_regA wf_regB] wf_regA wf_regB merge_regA_regB by simp

subsection \<open>Verify\<close>

lemma map_err_Inr:
  "\<forall>x \<in> set xs. f x = Inr (g x) \<Longrightarrow> map_err f xs = Inr (map g xs)"
  by (induction xs) auto

lemma map_err_Inl:
  "\<exists>x \<in> set xs. \<exists>e. f x = Inl e \<Longrightarrow> \<exists>e. map_err f xs = Inl e"
  by (induction xs) (fastforce split: sum.splits)+

lemma map_err_cong:
  "\<forall>x \<in> set xs. f x = g x \<Longrightarrow> map_err f xs = map_err g xs"
  by (induction xs) (auto split: sum.splits)

text \<open>The row of a live result: what \<open>verify_one_result\<close> returns when the actual side
  is present.\<close>

lemma verify_one_result_Some:
  "\<exists>c v. verify_one_result t (Some r) = Inr (c, v) \<and> row_status v = str_lower (status r) \<and>
     row_identity v = (case t of None \<Rightarrow> (suite r, name r) | Some u \<Rightarrow> (suite u, name u))"
  by (cases t) (auto simp: verify_one_result_def row_status_def row_identity_def)

lemma getTest_wf:
  assumes "wf_registry r" "getTest r s n = Some t"
  shows "suite t = s \<and> name t = n"
  using listTestNames_getTest [OF assms(1) getTest_listTestNames [OF assms(2)]] assms(2) by auto

lemma verify_rows_char:
  assumes "wf_registry registry"
  shows "\<exists>rows. verify_rows registry rs = Inr rows \<and>
           map (\<lambda>cv. row_identity (snd cv)) rows
             = map (\<lambda>r. (suite r, name r)) (sort_key (\<lambda>r. (suite r, name r)) rs) \<and>
           list_all (\<lambda>cv. row_status (snd cv) \<noteq> []) rows"
proof -
  define f where "f = (\<lambda>result :: JUnitTestResult.
      verify_one_result (getTest registry (suite result) (name result)) (Some result))"
  define g where "g = (\<lambda>result. case f result of Inr cv \<Rightarrow> cv | Inl e \<Rightarrow> (DEFAULT, ([], [], [], [], [])))"
  have fg: "f r = Inr (g r) \<and> row_status (snd (g r)) \<noteq> [] \<and> row_identity (snd (g r)) = (suite r, name r)"
    for r
  proof -
    obtain c v where cv: "f r = Inr (c, v)" "row_status v = str_lower (status r)"
      "row_identity v = (case getTest registry (suite r) (name r) of
           None \<Rightarrow> (suite r, name r) | Some u \<Rightarrow> (suite u, name u))"
      using verify_one_result_Some [of "getTest registry (suite r) (name r)" r]
      unfolding f_def by blast
    have "row_identity v = (suite r, name r)"
      using cv(3) getTest_wf [OF assms] by (auto split: option.splits)
    with cv show ?thesis by (simp add: g_def str_lower_def)
  qed
  let ?xs = "sort_key (\<lambda>r. (suite r, name r)) rs"
  have "verify_rows registry rs = Inr (map g ?xs)"
    unfolding verify_rows_def f_def [symmetric] by (rule map_err_Inr) (simp add: fg)
  moreover have "map (\<lambda>cv. row_identity (snd cv)) (map g ?xs) = map (\<lambda>r. (suite r, name r)) ?xs"
    by (simp add: fg)
  moreover have "list_all (\<lambda>cv. row_status (snd cv) \<noteq> []) (map g ?xs)"
    by (simp add: list_all_iff fg)
  ultimately show ?thesis by blast
qed

lemma verify_rows_total: "\<exists>rows. verify_rows registry rs = Inr rows"
proof -
  have "\<forall>x \<in> set xs. \<exists>y. f x = Inr y \<Longrightarrow> \<exists>ys. map_err f xs = Inr ys" for f :: "JUnitTestResult \<Rightarrow> error + (Colors \<times> row)" and xs
    by (induction xs) auto
  then show ?thesis
    unfolding verify_rows_def using verify_one_result_Some by (metis (no_types, lifting))
qed

lemma select_registry_mem:
  "select_registry args file_regs = Inr r \<Longrightarrow> r \<in> set file_regs"
  by (auto simp: select_registry_def load_registries_def load_one_registry_def
      load_registry_from_file_def find_Some_iff
      split: if_splits sum.splits option.splits list.splits)

lemma select_A_regB: "select_registry (args_A chk) [regB] = Inr regB"
  by (simp add: select_registry_def args_A_def load_registries_def truthy_def
      load_registry_from_file_def basename_def regB_def addTest_def new_XITTestRegistry_def Let_def)

lemma getTest_new: "getTest (new_XITTestRegistry lt nm p) s n = None"
  by (simp add: getTest_def new_XITTestRegistry_def)

lemma check_all_args_A: "check_all (args_A chk) = chk"
  by (simp add: args_A_def)

lemma verify_rows_regB:
  "verify_rows regB live_results =
     Inr [(DEFAULT, (''--'', ''S'', ''T1'', ''false'', ''false'')),
          (BLUE, (''??'', ''S'', ''T3'', ''true'', []))]"
  by (simp add: verify_rows_def live_results_def regB_def getTest_addTest getTest_new new_XITTest_def
       verify_one_result_def str_lower_def)

text \<open>
  C10.  Verify produces rows only for the live results: the rows of \<open>verify_results\<close>
  are, in order, the identities of the sorted results, one row per result, so an identity
  of the registry that no live result has yields no row; and every row's Result column is
  filled, so the row of a test that disappeared from the run (expected present, actual
  absent, Result empty) is never among them.  Classifying the rows itself never raises.
\<close>

theorem verify_rows_only_live_results:
  assumes "list_all wf_registry file_regs"
  shows "(\<exists>rows. verify_rows registry rs = Inr rows) \<and>
         (verify_results popen args file_regs rs = Inr (mods, rows) \<longrightarrow>
            map (\<lambda>cv. row_identity (snd cv)) rows
              = map (\<lambda>r. (suite r, name r)) (sort_key (\<lambda>r. (suite r, name r)) rs) \<and>
            list_all (\<lambda>cv. row_status (snd cv) \<noteq> []) rows \<and>
            (\<forall>s n. (s, n) \<notin> (\<lambda>r. (suite r, name r)) ` set rs \<longrightarrow>
                   (s, n) \<notin> (\<lambda>cv. row_identity (snd cv)) ` set rows))"
proof (intro conjI impI)
  show "\<exists>rows. verify_rows registry rs = Inr rows" by (rule verify_rows_total)
next
  assume v: "verify_results popen args file_regs rs = Inr (mods, rows)"
  then obtain reg where reg: "select_registry args file_regs = Inr reg"
    and rows: "verify_rows reg rs = Inr rows"
    by (auto simp: verify_results_def split: sum.splits)
  from select_registry_mem [OF reg] assms have "wf_registry reg"
    by (simp add: list_all_iff)
  from verify_rows_char [OF this, of rs] rows
  have 1: "map (\<lambda>cv. row_identity (snd cv)) rows
              = map (\<lambda>r. (suite r, name r)) (sort_key (\<lambda>r. (suite r, name r)) rs)"
    and 2: "list_all (\<lambda>cv. row_status (snd cv) \<noteq> []) rows"
    by auto
  show "map (\<lambda>cv. row_identity (snd cv)) rows
              = map (\<lambda>r. (suite r, name r)) (sort_key (\<lambda>r. (suite r, name r)) rs)" by (rule 1)
  show "list_all (\<lambda>cv. row_status (snd cv) \<noteq> []) rows" by (rule 2)
  have "(\<lambda>cv. row_identity (snd cv)) ` set rows = (\<lambda>r. (suite r, name r)) ` set rs"
    using arg_cong [OF 1, of set] by simp
  then show "\<forall>s n. (s, n) \<notin> (\<lambda>r. (suite r, name r)) ` set rs \<longrightarrow>
                   (s, n) \<notin> (\<lambda>cv. row_identity (snd cv)) ` set rows" by simp
qed

theorem verify_rows_only_live_results_witness:
  "list_all wf_registry [regB] \<and>
   getTest regB ''S'' ''T2'' = Some (new_XITTest ''S'' ''T2'' True) \<and>
   verify_results popen_fresh (args_A False) [regB] live_results =
     Inr ([], [(DEFAULT, (''--'', ''S'', ''T1'', ''false'', ''false'')),
               (BLUE, (''??'', ''S'', ''T3'', ''true'', []))]) \<and>
   (''S'', ''T2'') \<notin> (\<lambda>cv. row_identity (snd cv)) `
       set [(DEFAULT, (''--'', ''S'', ''T1'', ''false'', ''false'')),
            (BLUE, (''??'', ''S'', ''T3'', ''true'', []))]"
proof -
  have w: "list_all wf_registry [regB]" by (simp add: wf_regB)
  have v: "verify_results popen_fresh (args_A False) [regB] live_results =
     Inr ([], [(DEFAULT, (''--'', ''S'', ''T1'', ''false'', ''false'')),
               (BLUE, (''??'', ''S'', ''T3'', ''true'', []))])"
    by (simp add: verify_results_def select_A_regB verify_rows_regB check_all_args_A)
  have g: "getTest regB ''S'' ''T2'' = Some (new_XITTest ''S'' ''T2'' True)"
    by (simp add: regB_def getTest_addTest new_XITTest_def)
  show ?thesis
    using verify_rows_only_live_results [OF w, of regB live_results popen_fresh "args_A False" "[]"
        "[(DEFAULT, (''--'', ''S'', ''T1'', ''false'', ''false'')),
          (BLUE, (''??'', ''S'', ''T3'', ''true'', []))]"] w v g
    by (simp add: live_results_def)
qed

subsection \<open>Compare\<close>

lemma extend_modules_raises: "rs \<noteq> [] \<Longrightarrow> extend_modules modules rs = Inl AttributeError"
  by (cases rs) (simp_all add: XITModuleVersion_name_def)

lemma get_meta_comparison_raises:
  "moduleversions reg2 \<noteq> [] \<Longrightarrow> get_meta_comparison reg1 reg2 = Inl AttributeError"
  by (simp add: get_meta_comparison_def extend_modules_raises)

lemma get_meta_comparison_Nil:
  "moduleversions reg2 = [] \<Longrightarrow>
   get_meta_comparison reg1 reg2 =
     Inr (map (\<lambda>m. (m, concat (map version (filter (\<lambda>mr1. module mr1 = m) (moduleversions reg1))), []))
            (map module (moduleversions reg1)))"
  by (simp add: get_meta_comparison_def)

lemma identities_set:
  assumes "wf_registry r"
  shows "set (identities r) = {(s, n). getTest r s n \<noteq> None}"
proof (intro set_eqI iffI)
  fix x assume "x \<in> set (identities r)"
  then obtain s n st where "x = (s, n)" "(s, n, st) \<in> set (listTestNames r)"
    by (auto simp: identities_def)
  with listTestNames_getTest [OF assms, of s n st] show "x \<in> {(s, n). getTest r s n \<noteq> None}"
    by auto
next
  fix x assume "x \<in> {(s, n). getTest r s n \<noteq> None}"
  then obtain s n t where "x = (s, n)" "getTest r s n = Some t" by auto
  with getTest_listTestNames [of r s n t] show "x \<in> set (identities r)"
    by (force simp: identities_def)
qed

lemma sorted_map_identity:
  "sorted (xs :: (string \<times> string \<times> bool) list) \<Longrightarrow> sorted (map (\<lambda>(s, n, st). (s, n)) xs)"
  by (induction xs) (auto simp: less_eq_prod_def less_prod_def)

lemma verify_one_result_expected:
  "\<exists>c v. verify_one_result (Some t) r = Inr (c, v) \<and> row_identity v = (suite t, name t) \<and>
     row_expected v = str_lower (status t) \<and>
     (r = None \<longrightarrow> row_code v = ''??'' \<and> row_status v = [])"
  by (cases r) (auto simp: verify_one_result_def row_identity_def row_expected_def row_code_def
      row_status_def)

lemma compare_rows_char:
  assumes "wf_registry reg1"
  shows "\<exists>rows. map_err (\<lambda>(suite, test, status).
                    verify_one_result (getTest reg1 suite test) (getTest reg2 suite test))
                  (sort (listTestNames reg1)) = Inr rows \<and>
           map (\<lambda>cv. row_identity (snd cv)) rows = map (\<lambda>(s, n, st). (s, n)) (sort (listTestNames reg1)) \<and>
           list_all (\<lambda>cv. getTest reg2 (fst (row_identity (snd cv))) (snd (row_identity (snd cv))) = None
               \<longrightarrow> row_code (snd cv) = ''??'') rows"
proof -
  define f where "f = (\<lambda>(suite, test, status :: bool).
                    verify_one_result (getTest reg1 suite test) (getTest reg2 suite test))"
  define g where "g = (\<lambda>x. case f x of Inr cv \<Rightarrow> cv | Inl e \<Rightarrow> (DEFAULT, ([], [], [], [], [])))"
  let ?xs = "sort (listTestNames reg1)"
  have fg: "f x = Inr (g x) \<and> row_identity (snd (g x)) = (\<lambda>(s, n, st). (s, n)) x \<and>
      (getTest reg2 (fst (row_identity (snd (g x)))) (snd (row_identity (snd (g x)))) = None
               \<longrightarrow> row_code (snd (g x)) = ''??'')"
    if "x \<in> set ?xs" for x
  proof -
    obtain s n st where x: "x = (s, n, st)" by (cases x)
    with that have "(s, n, st) \<in> set (listTestNames reg1)" by simp
    from listTestNames_getTest [OF assms this] obtain t where
      t: "getTest reg1 s n = Some t" "suite t = s" "name t = n" by blast
    from verify_one_result_expected [of t "getTest reg2 s n"] obtain c v where
      cv: "verify_one_result (Some t) (getTest reg2 s n) = Inr (c, v)"
        "row_identity v = (suite t, name t)"
        "getTest reg2 s n = None \<longrightarrow> row_code v = ''??''" by auto
    have "f x = Inr (c, v)" by (simp add: f_def x t cv)
    then show ?thesis using cv t by (simp add: g_def x)
  qed
  have "map_err f ?xs = Inr (map g ?xs)"
    by (rule map_err_Inr) (simp add: fg)
  moreover have "map (\<lambda>cv. row_identity (snd cv)) (map g ?xs) = map (\<lambda>(s, n, st). (s, n)) ?xs"
    using fg by simp
  moreover have "list_all (\<lambda>cv. getTest reg2 (fst (row_identity (snd cv))) (snd (row_identity (snd cv))) = None
               \<longrightarrow> row_code (snd cv) = ''??'') (map g ?xs)"
    using fg by (simp add: list_all_iff)
  ultimately show ?thesis unfolding f_def by blast
qed

lemma compare_regA_regB:
  "compare_registry regA regB = Inr ([], [(RED, (''XX'', ''S'', ''T1'', ''false'', ''true''))])"
  by (simp add: compare_registry_def get_meta_comparison_def regA_def regB_def addTest_def
      new_XITTestRegistry_def new_XITTest_def listTestNames_def sorted_items_def has_key_def
      getTest_def verify_one_result_def str_lower_def)

text \<open>
  C3, as the code has it.  The test rows of \<open>compare_registry\<close>, when it returns (it does
  whenever the second registry records no module version), are keyed off the first
  registry alone: their identities are exactly the identities of the first registry, in
  ascending order; an identity that only the second registry has gets no row; and an
  identity that only the first registry has gets a row with code ??.
\<close>

theorem compare_rows_first_registry:
  assumes "wf_registry reg1"
  shows "(moduleversions reg2 = [] \<longrightarrow> (\<exists>m rows. compare_registry reg1 reg2 = Inr (m, rows))) \<and>
     (compare_registry reg1 reg2 = Inr (m, rows) \<longrightarrow>
        set (map (\<lambda>cv. row_identity (snd cv)) rows) = {(s, n). getTest reg1 s n \<noteq> None} \<and>
        sorted (map (\<lambda>cv. row_identity (snd cv)) rows) \<and>
        (\<forall>s n. getTest reg1 s n = None \<longrightarrow> (s, n) \<notin> set (map (\<lambda>cv. row_identity (snd cv)) rows)) \<and>
        list_all (\<lambda>cv. getTest reg2 (fst (row_identity (snd cv))) (snd (row_identity (snd cv))) = None
               \<longrightarrow> row_code (snd cv) = ''??'') rows)"
proof -
  from compare_rows_char [OF assms, of reg2] obtain rs where
    rs: "map_err (\<lambda>(suite, test, status).
                    verify_one_result (getTest reg1 suite test) (getTest reg2 suite test))
                  (sort (listTestNames reg1)) = Inr rs"
    and ids: "map (\<lambda>cv. row_identity (snd cv)) rs = map (\<lambda>(s, n, st). (s, n)) (sort (listTestNames reg1))"
    and q: "list_all (\<lambda>cv. getTest reg2 (fst (row_identity (snd cv))) (snd (row_identity (snd cv))) = None
               \<longrightarrow> row_code (snd cv) = ''??'') rs"
    by blast
  have set_ids: "set (map (\<lambda>cv. row_identity (snd cv)) rs) = {(s, n). getTest reg1 s n \<noteq> None}"
    unfolding ids using identities_set [OF assms] by (simp add: identities_def)
  have sorted_ids: "sorted (map (\<lambda>cv. row_identity (snd cv)) rs)"
    unfolding ids by (rule sorted_map_identity) simp
  have 1: "moduleversions reg2 = [] \<longrightarrow> (\<exists>m rows. compare_registry reg1 reg2 = Inr (m, rows))"
    by (simp add: compare_registry_def get_meta_comparison_Nil rs)
  have 2: "rows = rs" if "compare_registry reg1 reg2 = Inr (m, rows)"
    using that rs by (auto simp: compare_registry_def split: sum.splits)
  have 3: "\<forall>s n. getTest reg1 s n = None \<longrightarrow> (s, n) \<notin> set (map (\<lambda>cv. row_identity (snd cv)) rs)"
    unfolding set_ids by simp
  show ?thesis
  proof (intro conjI impI)
    show "\<exists>m rows. compare_registry reg1 reg2 = Inr (m, rows)" if "moduleversions reg2 = []"
      using 1 that by simp
  next
    assume "compare_registry reg1 reg2 = Inr (m, rows)"
    then have r: "rows = rs" by (rule 2)
    show "set (map (\<lambda>cv. row_identity (snd cv)) rows) = {(s, n). getTest reg1 s n \<noteq> None}"
      unfolding r by (rule set_ids)
    show "sorted (map (\<lambda>cv. row_identity (snd cv)) rows)"
      unfolding r by (rule sorted_ids)
    show "\<forall>s n. getTest reg1 s n = None \<longrightarrow> (s, n) \<notin> set (map (\<lambda>cv. row_identity (snd cv)) rows)"
      unfolding r by (rule 3)
    show "list_all (\<lambda>cv. getTest reg2 (fst (row_identity (snd cv))) (snd (row_identity (snd cv))) = None
               \<longrightarrow> row_code (snd cv) = ''??'') rows"
      unfolding r by (rule q)
  qed
qed

theorem compare_rows_first_registry_witness:
  "wf_registry regA \<and> moduleversions regB = [] \<and>
   compare_registry regA regB = Inr ([], [(RED, (''XX'', ''S'', ''T1'', ''false'', ''true''))]) \<and>
   set (map (\<lambda>cv. row_identity (snd cv)) [(RED, (''XX'', ''S'', ''T1'', ''false'', ''true''))])
     = {(s, n). getTest regA s n \<noteq> None}"
proof -
  have "moduleversions regB = []"
    by (simp add: regB_def addTest_def new_XITTestRegistry_def Let_def)
  then show ?thesis
    using compare_rows_first_registry [OF wf_regA, of regB "[]"
        "[(RED, (''XX'', ''S'', ''T1'', ''false'', ''true''))]"] wf_regA compare_regA_regB
    by simp
qed

theorem compare_drops_second_only_identity:
  "getTest regB ''S'' ''T2'' = Some (new_XITTest ''S'' ''T2'' True) \<and>
   getTest regA ''S'' ''T2'' = None \<and>
   compare_registry regA regB = Inr ([], [(RED, (''XX'', ''S'', ''T1'', ''false'', ''true''))]) \<and>
   (''S'', ''T2'') \<notin> set (map (\<lambda>cv. row_identity (snd cv))
       [(RED, (''XX'', ''S'', ''T1'', ''false'', ''true''))])"
proof -
  have "getTest regB ''S'' ''T2'' = Some (new_XITTest ''S'' ''T2'' True)"
    by (simp add: regB_def getTest_addTest new_XITTest_def)
  moreover have "getTest regA ''S'' ''T2'' = None"
    by (simp add: regA_def getTest_addTest getTest_new new_XITTest_def)
  ultimately show ?thesis
    by (simp add: compare_regA_regB row_identity_def)
qed

text \<open>
  C6 at the scenario of the specification (moduleX at 1.0 against moduleX at 1.1): the
  module-version diff is not produced.  \<open>get_meta_comparison\<close> reads \<open>r.name\<close> of the
  second registry's first module version, which has no such attribute, so it raises
  AttributeError and \<open>compare_registry\<close> with it.
\<close>

theorem meta_comparison_scenario_raises:
  "get_meta_comparison regX1 regX2 = Inl AttributeError \<and>
   compare_registry regX1 regX2 = Inl AttributeError"
  by (simp add: compare_registry_def get_meta_comparison_raises regX2_def new_XITTestRegistry_def)

subsection \<open>The installed-package check\<close>

lemma map_err_Inl_first:
  "\<forall>x \<in> set xs. \<forall>e. f x = Inl e \<longrightarrow> P e \<Longrightarrow> \<exists>x \<in> set xs. \<exists>e. f x = Inl e \<Longrightarrow>
   \<exists>e. map_err f xs = Inl e \<and> P e"
proof (induction xs)
  case Nil
  then show ?case by simp
next
  case (Cons x xs)
  show ?case
  proof (cases "f x")
    case (Inl e)
    with Cons.prems(1) show ?thesis by simp
  next
    case (Inr y)
    with Cons.prems have "\<exists>e. map_err f xs = Inl e \<and> P e"
      by (intro Cons.IH) auto
    with Inr show ?thesis by auto
  qed
qed

lemma compareSystemVersion_error:
  "mv_type mv = ''rpm'' \<Longrightarrow> compareSystemVersion popen mv = Inl e \<Longrightarrow> \<exists>rc. e = CalledProcessError rc"
  by (auto simp: compareSystemVersion_def Let_def split: if_splits)

lemma compareSystemVersion_fails:
  "mv_type mv = ''rpm'' \<Longrightarrow> returncode (popen (''rpm -q '' @ module mv)) \<noteq> Some 0 \<Longrightarrow>
   compareSystemVersion popen mv = Inl (CalledProcessError (returncode (popen (''rpm -q '' @ module mv))))"
  by (simp add: compareSystemVersion_def Let_def)

lemma check_installed_rpms_fails:
  assumes "mv \<in> set (moduleversions registry)" "mv_type mv = ''rpm''"
    "returncode (popen (''rpm -q '' @ module mv)) \<noteq> Some 0"
  shows "\<exists>rc. check_installed_rpms popen registry = Inl (CalledProcessError rc)"
proof -
  let ?f = "\<lambda>moduleversion.
                case compareSystemVersion popen moduleversion of
                  Inl e \<Rightarrow> Inl e
                | Inr (rc, v) \<Rightarrow> Inr (module moduleversion, version moduleversion, v)"
  let ?xs = "filter (\<lambda>moduleversion. mv_type moduleversion = ''rpm'') (moduleversions registry)"
  have "\<forall>x \<in> set ?xs. \<forall>e. ?f x = Inl e \<longrightarrow> (\<exists>rc. e = CalledProcessError rc)"
    by (auto split: sum.splits dest: compareSystemVersion_error)
  moreover have "\<exists>x \<in> set ?xs. \<exists>e. ?f x = Inl e"
    using assms by (intro bexI [of _ mv]) (simp_all add: compareSystemVersion_fails)
  ultimately have "\<exists>e. map_err ?f ?xs = Inl e \<and> (\<exists>rc. e = CalledProcessError rc)"
    by (rule map_err_Inl_first)
  then show ?thesis unfolding check_installed_rpms_def by blast
qed

lemma check_installed_rpms_none:
  "\<forall>mv \<in> set (moduleversions registry). mv_type mv \<noteq> ''rpm'' \<Longrightarrow>
   check_installed_rpms popen registry = Inr []"
proof -
  assume "\<forall>mv \<in> set (moduleversions registry). mv_type mv \<noteq> ''rpm''"
  then have "filter (\<lambda>moduleversion. mv_type moduleversion = ''rpm'') (moduleversions registry) = []"
    by (simp add: filter_empty_conv)
  then show ?thesis by (simp add: check_installed_rpms_def)
qed

text \<open>
  C8, as the code has it.  The installed-package check is not advisory.  When verify
  runs with the check-all option on a registry that records a module version of type rpm
  whose query process does not report return code 0, \<open>compareSystemVersion\<close> raises
  CalledProcessError, nothing catches it, and verify aborts with that error: no test row
  is classified.  Without the option, or when the registry records no module version of
  type rpm, the collaborator is not consulted and verify returns exactly the classified
  rows.
\<close>

theorem package_check_aborts_verify:
  assumes "select_registry args file_regs = Inr registry"
  shows "(check_all args \<and>
          (\<exists>mv \<in> set (moduleversions registry).
              mv_type mv = ''rpm'' \<and> returncode (popen (''rpm -q '' @ module mv)) \<noteq> Some 0)
           \<longrightarrow> (\<exists>rc. verify_results popen args file_regs rs = Inl (CalledProcessError rc))) \<and>
         (\<not> check_all args \<or> (\<forall>mv \<in> set (moduleversions registry). mv_type mv \<noteq> ''rpm'')
           \<longrightarrow> verify_results popen args file_regs rs
                 = (case verify_rows registry rs of Inl e \<Rightarrow> Inl e | Inr rows \<Rightarrow> Inr ([], rows)))"
proof (intro conjI impI)
  assume "check_all args \<and>
          (\<exists>mv \<in> set (moduleversions registry).
              mv_type mv = ''rpm'' \<and> returncode (popen (''rpm -q '' @ module mv)) \<noteq> Some 0)"
  then obtain mv where "check_all args" "mv \<in> set (moduleversions registry)" "mv_type mv = ''rpm''"
    "returncode (popen (''rpm -q '' @ module mv)) \<noteq> Some 0" by blast
  with check_installed_rpms_fails [of mv registry popen]
  show "\<exists>rc. verify_results popen args file_regs rs = Inl (CalledProcessError rc)"
    by (auto simp: verify_results_def assms)
next
  assume "\<not> check_all args \<or> (\<forall>mv \<in> set (moduleversions registry). mv_type mv \<noteq> ''rpm'')"
  then have "(if check_all args then check_installed_rpms popen registry else Inr []) = Inr []"
    using check_installed_rpms_none [of registry popen] by auto
  then show "verify_results popen args file_regs rs
                 = (case verify_rows registry rs of Inl e \<Rightarrow> Inl e | Inr rows \<Rightarrow> Inr ([], rows))"
    by (simp add: verify_results_def assms)
qed

lemma select_A_regR: "select_registry (args_A chk) [regR] = Inr regR"
  by (simp add: select_registry_def args_A_def load_registries_def truthy_def
      load_registry_from_file_def basename_def regR_def regA_def addTest_def new_XITTestRegistry_def Let_def)

lemma moduleversions_regR:
  "moduleversions regR = [\<lparr>module = ''xorg-x11-server-Xorg'', version = ''xorg-x11-server-Xorg-1.13.0-1.fc18'',
       mv_type = ''rpm'', repo = None\<rparr>]"
  by (simp add: regR_def)

lemma verify_regR_check_all:
  "verify_results popen_fresh (args_A True) [regR] live_results = Inl (CalledProcessError None)"
  by (simp add: verify_results_def select_A_regR check_all_args_A check_installed_rpms_def
      moduleversions_regR compareSystemVersion_def popen_fresh_def)

theorem package_check_aborts_verify_witness:
  "select_registry (args_A True) [regR] = Inr regR \<and> check_all (args_A True) \<and>
   verify_results popen_fresh (args_A True) [regR] live_results = Inl (CalledProcessError None)"
  using package_check_aborts_verify [OF select_A_regR, of True popen_fresh live_results]
    select_A_regR [of True] verify_regR_check_all
  by (simp add: check_all_args_A)

theorem verify_aborts_on_package_query:
  "check_all (args_A True) \<and>
   mv_type \<lparr>module = ''xorg-x11-server-Xorg'', version = ''xorg-x11-server-Xorg-1.13.0-1.fc18'',
       mv_type = ''rpm'', repo = None\<rparr> = ''rpm'' \<and>
   returncode (popen_fresh ''rpm -q xorg-x11-server-Xorg'') = None \<and>
   verify_results popen_fresh (args_A True) [regR] live_results = Inl (CalledProcessError None)"
  by (simp add: verify_regR_check_all check_all_args_A popen_fresh_def)

subsection \<open>Encoding order\<close>

lemma distinct_map_sort_key:
  "distinct (map f xs) \<Longrightarrow> distinct (map f (sort_key f xs))"
proof -
  assume d: "distinct (map f xs)"
  have "card (set (map f (sort_key f xs))) = card (set (map f xs))" by simp
  also have "\<dots> = length (map f xs)" using d by (rule distinct_card)
  also have "\<dots> = length (map f (sort_key f xs))" by simp
  finally show ?thesis by (rule card_distinct)
qed

lemma sort_key_determined:
  assumes "distinct (map f xs)" "distinct (map f ys)" "set xs = set ys"
  shows "sort_key f xs = sort_key f ys"
proof -
  have "map f (sort_key f xs) = map f (sort_key f ys)"
  proof (rule sorted_distinct_set_unique)
    show "sorted (map f (sort_key f xs))" by (rule sorted_sort_key)
    show "sorted (map f (sort_key f ys))" by (rule sorted_sort_key)
    show "distinct (map f (sort_key f xs))" using assms(1) by (rule distinct_map_sort_key)
    show "distinct (map f (sort_key f ys))" using assms(2) by (rule distinct_map_sort_key)
    show "set (map f (sort_key f xs)) = set (map f (sort_key f ys))" using assms(3) by simp
  qed
  moreover have "inj_on f (set (sort_key f xs) \<union> set (sort_key f ys))"
    using assms(1,3) by (simp add: distinct_map)
  ultimately show ?thesis by (simp add: inj_on_map_eq_map)
qed

lemma tags_distinct:
  "xmlns_tag ''bug'' \<noteq> xmlns_tag ''fix''" "xmlns_tag ''bug'' \<noteq> xmlns_tag ''testinfo''"
  "xmlns_tag ''fix'' \<noteq> xmlns_tag ''testinfo''" "xmlns_tag ''meta'' \<noteq> xmlns_tag ''testsuite''"
  "xmlns_tag ''fix'' \<noteq> xmlns_tag ''bug''" "xmlns_tag ''testinfo'' \<noteq> xmlns_tag ''bug''"
  "xmlns_tag ''testinfo'' \<noteq> xmlns_tag ''fix''" "xmlns_tag ''testsuite'' \<noteq> xmlns_tag ''meta''"
  by (simp_all add: xmlns_tag_def)

lemma el_tag_elements [simp]:
  "el_tag (bug_element b) = xmlns_tag ''bug''"
  "el_tag (fix_element f) = xmlns_tag ''fix''"
  "el_tag (info_element i) = xmlns_tag ''testinfo''"
  "el_tag (testcase_element t) = xmlns_tag ''testcase''"
  "el_tag (suite_element x) = xmlns_tag ''testsuite''"
  "el_tag (meta_element sf r) = xmlns_tag ''meta''"
  "el_tag (registry_element sf r) = xmlns_tag ''registry''"
  by (simp_all add: bug_element_def fix_element_def info_element_def testcase_element_def
      suite_element_def meta_element_def registry_element_def split: prod.splits)

lemma filter_map_tag:
  "(\<And>x. el_tag (g x) = t) \<Longrightarrow> filter (\<lambda>c. el_tag c = t) (map g xs) = map g xs"
  "(\<And>x. el_tag (g x) \<noteq> t) \<Longrightarrow> filter (\<lambda>c. el_tag c = t) (map g xs) = []"
  by (induction xs) auto

lemma iterchildren_testcase_element:
  "iterchildren (testcase_element t) (xmlns_tag ''bug'') = map bug_element (getBugs t)"
  "iterchildren (testcase_element t) (xmlns_tag ''fix'') = map fix_element (getFixes t)"
  "iterchildren (testcase_element t) (xmlns_tag ''testinfo'') = map info_element (getInfo t)"
  by (simp_all add: iterchildren_def testcase_element_def filter_map_tag tags_distinct)

lemma iterchildren_suite_element:
  "iterchildren (suite_element (s, d)) (xmlns_tag ''testcase'')
     = map (\<lambda>(n, test). testcase_element test) (sorted_items d)"
  by (simp add: iterchildren_def suite_element_def filter_map_tag split_beta)

lemma iterchildren_registry_element:
  "iterchildren (registry_element sf r) (xmlns_tag ''testsuite'')
     = map suite_element (sorted_items (tests r))"
  by (simp add: iterchildren_def registry_element_def filter_map_tag tags_distinct)

lemma iterchildren_toXML:
  "iterchildren (toXML sf self others) (xmlns_tag ''registry'')
     = map (registry_element sf) (if length others = 0 then [self] else others)"
  by (simp add: iterchildren_def toXML_def filter_map_tag)

lemma element_name_elements:
  "element_name (suite_element x) = fst x"
  "element_name (testcase_element t) = name t"
  "element_name (registry_element sf r) = reg_name r"
  by (simp_all add: element_name_def suite_element_def testcase_element_def registry_element_def
      split: prod.splits)

lemma map_of_fold_update_type:
  "map_of l ''type'' = Some ty \<Longrightarrow> list_all (\<lambda>(k, v). k = ''type'' \<longrightarrow> v = ty) xs \<Longrightarrow>
   map_of (fold (\<lambda>(arg, value) a. AList.update arg value a) xs l) ''type'' = Some ty"
proof (induction xs arbitrary: l)
  case Nil
  then show ?case by simp
next
  case (Cons x xs)
  obtain k v where x: "x = (k, v)" by (cases x)
  from Cons.prems x have "map_of (AList.update k v l) ''type'' = Some ty"
    by (auto simp: update_conv')
  moreover from Cons.prems have "list_all (\<lambda>(k, v). k = ''type'' \<longrightarrow> v = ty) xs" by simp
  ultimately show ?case using Cons.IH [of "AList.update k v l"] by (simp add: x)
qed

lemma element_key_elements:
  "element_key (bug_element b) = (bug_type b, url b)"
  "element_key (info_element i) = (info_type i, info_text i)"
  "fix_args_ok f \<Longrightarrow> element_key (fix_element f) = (fix_type f, fix_text f)"
  by (simp_all add: element_key_def bug_element_def info_element_def fix_element_def fix_attrib_def
      fix_args_ok_def map_of_fold_update_type)

lemma suite_names:
  "map element_name (iterchildren (registry_element sf r) (xmlns_tag ''testsuite''))
     = map fst (sorted_items (tests r))"
  by (simp add: iterchildren_registry_element element_name_elements)

lemma case_names:
  assumes "wf_suite s d"
  shows "map element_name (iterchildren (suite_element (s, d)) (xmlns_tag ''testcase''))
     = map fst (sorted_items d)"
proof -
  have "\<forall>x \<in> set d. name (snd x) = fst x"
    using assms by (auto simp: wf_suite_def list_all_iff)
  then show ?thesis
    by (simp add: iterchildren_suite_element element_name_elements set_sorted_items split_beta)
qed

lemma sorted_keys_sorted_items: "sorted (map fst (sorted_items d))"
  unfolding sorted_items_def by (rule sorted_sort_key)

lemma distinct_keys_sorted_items: "distinct (map fst d) \<Longrightarrow> distinct (map fst (sorted_items d))"
  unfolding sorted_items_def by (rule distinct_map_sort_key)

lemma bug_keys:
  "map element_key (iterchildren (testcase_element t) (xmlns_tag ''bug''))
     = map (\<lambda>b. (bug_type b, url b)) (getBugs t)"
  by (simp add: iterchildren_testcase_element element_key_elements)

lemma info_keys:
  "map element_key (iterchildren (testcase_element t) (xmlns_tag ''testinfo''))
     = map (\<lambda>i. (info_type i, info_text i)) (getInfo t)"
  by (simp add: iterchildren_testcase_element element_key_elements)

lemma fix_keys:
  assumes "list_all fix_args_ok (t_fixes t)"
  shows "map element_key (iterchildren (testcase_element t) (xmlns_tag ''fix''))
     = map (\<lambda>f. (fix_type f, fix_text f)) (getFixes t)"
proof -
  have "\<forall>f \<in> set (getFixes t). fix_args_ok f"
    using assms by (simp add: getFixes_def list_all_iff)
  then show ?thesis
    by (simp add: iterchildren_testcase_element element_key_elements)
qed

lemma suite_element_determined:
  assumes "distinct (map fst d1)" "distinct (map fst d2)" "set d1 = set d2"
  shows "suite_element (s, d1) = suite_element (s, d2)"
  using sort_key_determined [OF assms] by (simp add: suite_element_def sorted_items_def)

lemma registry_suites_determined:
  assumes "distinct (map fst (tests r1))" "distinct (map fst (tests r2))" "set (tests r1) = set (tests r2)"
  shows "iterchildren (registry_element sf r1) (xmlns_tag ''testsuite'')
       = iterchildren (registry_element sf r2) (xmlns_tag ''testsuite'')"
  using sort_key_determined [OF assms] by (simp add: iterchildren_registry_element sorted_items_def)

text \<open>Given the registries b and a in this order, \<open>toXML\<close> emits b before a.\<close>

theorem toXML_registries_unsorted:
  "map element_name
     (iterchildren (toXML strftime_fixed (reg_named ''b'') [reg_named ''b'', reg_named ''a''])
        (xmlns_tag ''registry'')) = [''b'', ''a''] \<and>
   \<not> sorted [''b'', ''a'']"
  by (simp add: iterchildren_toXML element_name_elements reg_named_def new_XITTestRegistry_def)

subsection \<open>Decoding and encoding a document\<close>

lemma fold_err_Inr:
  "\<forall>x \<in> set xs. \<forall>s. f x s = Inr (g x s) \<Longrightarrow> fold_err f xs s = Inr (fold g xs s)"
  by (induction xs arbitrary: s) auto

lemma dedup_fold_set:
  "set (fold (\<lambda>x xs. if py_in eq x xs then xs else xs @ [x]) new xs) \<subseteq> set xs \<union> set new"
proof (induction new arbitrary: xs)
  case Nil
  then show ?case by simp
next
  case (Cons x new)
  have "set (if py_in eq x xs then xs else xs @ [x]) \<subseteq> set xs \<union> {x}" by auto
  with Cons [of "if py_in eq x xs then xs else xs @ [x]"] show ?case by auto
qed

lemma dedup_fold_image:
  assumes "\<forall>a \<in> set xs \<union> set new. \<forall>b \<in> set xs \<union> set new. eq a b \<longrightarrow> \<sigma> a = \<sigma> b"
    and "\<forall>a. eq a a"
  shows "\<sigma> ` set (fold (\<lambda>x xs. if py_in eq x xs then xs else xs @ [x]) new xs)
           = \<sigma> ` set xs \<union> \<sigma> ` set new"
  using assms(1)
proof (induction new arbitrary: xs)
  case Nil
  then show ?case by simp
next
  case (Cons x new)
  let ?ys = "if py_in eq x xs then xs else xs @ [x]"
  have ys_sub: "set ?ys \<subseteq> set xs \<union> {x}" by auto
  have img: "\<sigma> ` set ?ys = \<sigma> ` set xs \<union> {\<sigma> x}"
  proof (cases "py_in eq x xs")
    case True
    then obtain y where y: "y \<in> set xs" "eq y x" by (auto simp: py_in_def list_ex_iff)
    with Cons.prems have "\<sigma> y = \<sigma> x" by auto
    with y(1) have "\<sigma> x \<in> \<sigma> ` set xs" by (metis imageI)
    with True show ?thesis by auto
  next
    case False
    then show ?thesis by auto
  qed
  have "\<forall>a \<in> set ?ys \<union> set new. \<forall>b \<in> set ?ys \<union> set new. eq a b \<longrightarrow> \<sigma> a = \<sigma> b"
    using Cons.prems ys_sub by (auto split: if_splits)
  from Cons.IH [OF this] img show ?case by auto
qed

lemma fold_addBug:
  "fold (\<lambda>b t. addBug t b) bs t
     = t\<lparr>t_bugs := fold (\<lambda>x xs. if py_in XITBug_eq x xs then xs else xs @ [x]) bs (t_bugs t)\<rparr>"
  by (induction bs arbitrary: t) (simp_all add: addBug_def)

lemma fold_addInfo:
  "fold (\<lambda>i t. addInfo t i) is t
     = t\<lparr>t_info := fold (\<lambda>x xs. if py_in XITInfo_eq x xs then xs else xs @ [x]) is (t_info t)\<rparr>"
  by (induction "is" arbitrary: t) (simp_all add: addInfo_def)

lemma fold_addFix:
  "fold (\<lambda>f t. addFix t f) fs t
     = t\<lparr>t_fixes := fold (\<lambda>x xs. if py_in XITFix_eq x xs then xs else xs @ [x]) fs (t_fixes t)\<rparr>"
  by (induction fs arbitrary: t) (simp_all add: addFix_def)

lemma parse_bug_decoded: "parse_bug e t = Inr (addBug t (decoded_bug e))"
  by (simp add: parse_bug_def decoded_bug_def bug_sem_def Let_def)

lemma parse_info_decoded:
  "wf_info_element e \<Longrightarrow> parse_info e t = Inr (addInfo t (decoded_info e))"
  by (auto simp: parse_info_def decoded_info_def note_sem_def Let_def wf_info_element_def
      XITInfo_createFromType_def bind_err_def split: option.splits)

lemma parse_fix_decoded:
  "wf_fix_element e \<Longrightarrow> parse_fix e t = Inr (addFix t (decoded_fix e))"
  by (auto simp: parse_fix_def decoded_fix_def element_key_def wf_fix_element_def attrib_get_def
      XITFix_createFromType_def bind_err_def)

lemma parse_bugs:
  "fold_err parse_bug es t
     = Inr (t\<lparr>t_bugs := fold (\<lambda>x xs. if py_in XITBug_eq x xs then xs else xs @ [x])
                           (map decoded_bug es) (t_bugs t)\<rparr>)"
proof -
  have "fold_err parse_bug es t = Inr (fold (\<lambda>e t. addBug t (decoded_bug e)) es t)"
    by (rule fold_err_Inr) (simp add: parse_bug_decoded)
  also have "fold (\<lambda>e t. addBug t (decoded_bug e)) es t = fold (\<lambda>b t. addBug t b) (map decoded_bug es) t"
    by (simp add: fold_map comp_def)
  finally show ?thesis by (simp add: fold_addBug)
qed

lemma parse_infos:
  assumes "list_all wf_info_element es"
  shows "fold_err parse_info es t
     = Inr (t\<lparr>t_info := fold (\<lambda>x xs. if py_in XITInfo_eq x xs then xs else xs @ [x])
                           (map decoded_info es) (t_info t)\<rparr>)"
proof -
  have "fold_err parse_info es t = Inr (fold (\<lambda>e t. addInfo t (decoded_info e)) es t)"
    using assms by (intro fold_err_Inr) (simp add: parse_info_decoded list_all_iff)
  also have "fold (\<lambda>e t. addInfo t (decoded_info e)) es t = fold (\<lambda>b t. addInfo t b) (map decoded_info es) t"
    by (simp add: fold_map comp_def)
  finally show ?thesis by (simp add: fold_addInfo)
qed

lemma parse_fixes:
  assumes "list_all wf_fix_element es"
  shows "fold_err parse_fix es t
     = Inr (t\<lparr>t_fixes := fold (\<lambda>x xs. if py_in XITFix_eq x xs then xs else xs @ [x])
                           (map decoded_fix es) (t_fixes t)\<rparr>)"
proof -
  have "fold_err parse_fix es t = Inr (fold (\<lambda>e t. addFix t (decoded_fix e)) es t)"
    using assms by (intro fold_err_Inr) (simp add: parse_fix_decoded list_all_iff)
  also have "fold (\<lambda>e t. addFix t (decoded_fix e)) es t = fold (\<lambda>b t. addFix t b) (map decoded_fix es) t"
    by (simp add: fold_map comp_def)
  finally show ?thesis by (simp add: fold_addFix)
qed

subsection \<open>Encoding does not depend on insertion order\<close>

lemma insort_key_map_values:
  "insort_key fst (fst kv, g (snd kv)) (map (\<lambda>kv. (fst kv, g (snd kv))) xs)
     = map (\<lambda>kv. (fst kv, g (snd kv))) (insort_key fst kv xs)"
  by (induction xs) simp_all

lemma sort_key_map_values:
  "sort_key fst (map (\<lambda>kv. (fst kv, g (snd kv))) d) = map (\<lambda>kv. (fst kv, g (snd kv))) (sort_key fst d)"
  by (induction d) (simp_all add: insort_key_map_values)

lemma same_dict_lookup:
  assumes "same_dict rel d d'" "(k, v) \<in> set d"
  shows "\<exists>v'. (k, v') \<in> set d' \<and> rel v v'"
proof -
  from assms(1) have a: "\<forall>kv \<in> set d. (case map_of d' (fst kv) of None \<Rightarrow> False | Some v' \<Rightarrow> rel (snd kv) v')"
    unfolding same_dict_def list_all_iff by blast
  from bspec [OF a assms(2)] have "case map_of d' k of None \<Rightarrow> False | Some v' \<Rightarrow> rel v v'"
    by (simp split: option.splits)
  then obtain v' where "map_of d' k = Some v'" "rel v v'"
    by (auto split: option.splits)
  then show ?thesis by (auto dest: map_of_SomeD)
qed

lemma same_dict_lookup_back:
  assumes "same_dict rel d d'" "(k, v') \<in> set d'"
  shows "\<exists>v. (k, v) \<in> set d \<and> rel v v'"
proof -
  from assms(1) have a: "\<forall>kv \<in> set d'. map_of d (fst kv) \<noteq> None"
    unfolding same_dict_def list_all_iff by blast
  from bspec [OF a assms(2)] obtain v where "map_of d k = Some v"
    by auto
  then have v: "(k, v) \<in> set d" by (rule map_of_SomeD)
  from same_dict_lookup [OF assms(1) v] obtain v'' where v'': "(k, v'') \<in> set d'" "rel v v''"
    by blast
  from assms(1) have "distinct (map fst d')" by (simp add: same_dict_def)
  with v''(1) assms(2) have "v'' = v'" by (meson eq_key_imp_eq_value)
  with v v''(2) show ?thesis by blast
qed

lemma same_dict_sorted_items:
  assumes "same_dict rel d d'" and g: "\<And>v v'. rel v v' \<Longrightarrow> g v = g v'"
  shows "map (\<lambda>kv. (fst kv, g (snd kv))) (sorted_items d)
       = map (\<lambda>kv. (fst kv, g (snd kv))) (sorted_items d')"
proof -
  let ?h = "\<lambda>kv. (fst kv, g (snd kv))"
  have fst_h: "map fst (map ?h xs) = map fst xs" for xs :: "(string \<times> 'a) list"
    by (simp add: comp_def)
  have "set (map ?h d) = set (map ?h d')"
  proof (intro set_eqI iffI)
    fix x assume "x \<in> set (map ?h d)"
    then obtain k v where kv: "(k, v) \<in> set d" "x = (k, g v)" by auto
    from same_dict_lookup [OF assms(1) kv(1)] obtain v' where "(k, v') \<in> set d'" "rel v v'" by blast
    with g [of v v'] kv(2) show "x \<in> set (map ?h d')" by force
  next
    fix x assume "x \<in> set (map ?h d')"
    then obtain k v' where kv: "(k, v') \<in> set d'" "x = (k, g v')" by auto
    from same_dict_lookup_back [OF assms(1) kv(1)] obtain v where "(k, v) \<in> set d" "rel v v'" by blast
    with g [of v v'] kv(2) show "x \<in> set (map ?h d)" by force
  qed
  moreover have "distinct (map fst (map ?h d))" "distinct (map fst (map ?h d'))"
    using assms(1) unfolding fst_h by (simp_all add: same_dict_def)
  ultimately have "sort_key fst (map ?h d) = sort_key fst (map ?h d')"
    by (intro sort_key_determined)
  then show ?thesis
    unfolding sorted_items_def sort_key_map_values .
qed

lemma same_test_element:
  assumes "same_test t t'"
  shows "testcase_element t = testcase_element t'"
proof -
  have "getBugs t = getBugs t'" "getFixes t = getFixes t'" "getInfo t = getInfo t'"
    using assms unfolding same_test_def same_collection_def getBugs_def getFixes_def getInfo_def
    by (auto intro: sort_key_determined)
  with assms show ?thesis by (simp add: testcase_element_def same_test_def)
qed

lemma suite_element_children:
  "suite_element kv = Element (xmlns_tag ''testsuite'') [(''name'', fst kv)] []
     (map snd (map (\<lambda>nt. (fst nt, testcase_element (snd nt))) (sorted_items (snd kv))))"
  by (cases kv) (simp add: suite_element_def split_beta comp_def)

lemma same_dict_testcases:
  assumes "same_dict same_test d d'"
  shows "map (\<lambda>nt. (fst nt, testcase_element (snd nt))) (sorted_items d)
       = map (\<lambda>nt. (fst nt, testcase_element (snd nt))) (sorted_items d')"
  using assms by (rule same_dict_sorted_items) (rule same_test_element)

lemma same_dict_suites:
  assumes "same_dict (same_dict same_test) D D'"
  shows "map suite_element (sorted_items D) = map suite_element (sorted_items D')"
proof -
  let ?g = "\<lambda>d. map snd (map (\<lambda>nt. (fst nt, testcase_element (snd nt))) (sorted_items d))"
  let ?F = "\<lambda>kc. Element (xmlns_tag ''testsuite'') [(''name'', fst kc)] [] (snd kc)"
  have 1: "map (\<lambda>kv. (fst kv, ?g (snd kv))) (sorted_items D) = map (\<lambda>kv. (fst kv, ?g (snd kv))) (sorted_items D')"
    using assms by (rule same_dict_sorted_items) (simp add: same_dict_testcases)
  have eq: "map suite_element xs = map ?F (map (\<lambda>kv. (fst kv, ?g (snd kv))) xs)" for xs
    by (induction xs) (simp_all add: suite_element_children)
  show ?thesis
    unfolding eq by (rule arg_cong [where f = "map ?F"]) (rule 1)
qed

lemma same_registry_element:
  assumes "same_registry r r'"
  shows "registry_element sf r = registry_element sf r'"
  using assms same_dict_suites [of "tests r" "tests r'"]
  by (simp add: same_registry_def registry_element_def meta_element_def)

lemma same_registries_toXML:
  assumes "same_registry self self'" "list_all2 same_registry others others'"
  shows "toXML sf self others = toXML sf self' others'"
proof -
  have "map (registry_element sf) others = map (registry_element sf) others'"
    using assms(2) by (induction rule: list_all2_induct) (simp_all add: same_registry_element)
  moreover have "length others = length others'"
    using assms(2) by (rule list_all2_lengthD)
  ultimately show ?thesis
    using same_registry_element [OF assms(1), of sf] by (simp add: toXML_def)
qed

lemma testcase_element_ordered:
  assumes "list_all fix_args_ok (t_fixes t)"
  shows "testcase_ordered (testcase_element t)"
proof -
  have "el_children (testcase_element t)
      = map bug_element (getBugs t) @ map fix_element (getFixes t) @ map info_element (getInfo t)"
    by (simp add: testcase_element_def)
  moreover have "sorted (map element_key (iterchildren (testcase_element t) (xmlns_tag ''bug'')))"
    unfolding bug_keys getBugs_def by (rule sorted_sort_key)
  moreover have "sorted (map element_key (iterchildren (testcase_element t) (xmlns_tag ''fix'')))"
    unfolding fix_keys [OF assms] getFixes_def by (rule sorted_sort_key)
  moreover have "sorted (map element_key (iterchildren (testcase_element t) (xmlns_tag ''testinfo'')))"
    unfolding info_keys getInfo_def by (rule sorted_sort_key)
  ultimately show ?thesis
    unfolding testcase_ordered_def iterchildren_testcase_element by simp
qed

lemma suite_element_ordered:
  assumes "wf_suite s d" "list_all (\<lambda>nt. list_all fix_args_ok (t_fixes (snd nt))) d"
  shows "suite_ordered (suite_element (s, d))"
proof -
  have c: "el_children (suite_element (s, d)) = iterchildren (suite_element (s, d)) (xmlns_tag ''testcase'')"
    by (simp add: iterchildren_suite_element) (simp add: suite_element_def)
  have n: "map element_name (el_children (suite_element (s, d))) = map fst (sorted_items d)"
    unfolding c by (rule case_names [OF assms(1)])
  have "sorted (map element_name (el_children (suite_element (s, d))))"
    unfolding n by (rule sorted_keys_sorted_items)
  moreover have "distinct (map element_name (el_children (suite_element (s, d))))"
    unfolding n using assms(1) by (intro distinct_keys_sorted_items) (simp add: wf_suite_def)
  moreover have "list_all testcase_ordered (el_children (suite_element (s, d)))"
    unfolding c iterchildren_suite_element
    using assms(2) by (auto simp: list_all_iff set_sorted_items intro!: testcase_element_ordered)
  ultimately show ?thesis
    unfolding suite_ordered_def using c by simp
qed

lemma registry_element_ordered:
  assumes "wf_registry r" "fixes_ok_registry r"
  shows "registry_ordered (registry_element sf r)"
proof -
  have c: "tl (el_children (registry_element sf r))
         = iterchildren (registry_element sf r) (xmlns_tag ''testsuite'')"
    by (simp add: iterchildren_registry_element) (simp add: registry_element_def)
  have "sorted (map element_name (iterchildren (registry_element sf r) (xmlns_tag ''testsuite'')))"
    unfolding suite_names by (rule sorted_keys_sorted_items)
  moreover have "distinct (map element_name (iterchildren (registry_element sf r) (xmlns_tag ''testsuite'')))"
    unfolding suite_names using assms(1) by (intro distinct_keys_sorted_items) (simp add: wf_registry_def)
  moreover have "list_all suite_ordered (iterchildren (registry_element sf r) (xmlns_tag ''testsuite''))"
  proof -
    have "suite_ordered (suite_element x)" if "x \<in> set (tests r)" for x
    proof -
      obtain s d where x: "x = (s, d)" by (cases x)
      from that assms have "wf_suite s d" "list_all (\<lambda>nt. list_all fix_args_ok (t_fixes (snd nt))) d"
        by (auto simp: x wf_registry_def fixes_ok_registry_def list_all_iff)
      then show ?thesis unfolding x by (rule suite_element_ordered)
    qed
    then show ?thesis
      unfolding iterchildren_registry_element by (simp add: list_all_iff set_sorted_items)
  qed
  ultimately show ?thesis
    unfolding registry_ordered_def using c by simp
qed

text \<open>
  C7, as the code has it.  In the document that \<open>toXML\<close> returns, the children of the
  root are the registries in the order of the list given, not sorted by name.  Every
  registry element of that document is ordered: after its meta element come its test
  suites in strictly ascending order of suite name; the children of every one of its
  suites are the test cases in strictly ascending order of case name; and the children of
  every one of those test cases are the bugs, then the fixes, then the notes, each in
  ascending order of (type, text).  The document does not depend on insertion order: from
  registries that hold the same entries, inserted in any other order at every level, 
  \<open>toXML\<close> returns the same document.
\<close>

theorem toXML_order:
  assumes "list_all wf_registry (if length others = 0 then [self] else others)"
    and "list_all fixes_ok_registry (if length others = 0 then [self] else others)"
  shows "el_children (toXML sf self others)
           = iterchildren (toXML sf self others) (xmlns_tag ''registry'') \<and>
         map element_name (el_children (toXML sf self others))
           = map reg_name (if length others = 0 then [self] else others) \<and>
         list_all registry_ordered (el_children (toXML sf self others)) \<and>
         (same_registry self self' \<and> list_all2 same_registry others others' \<longrightarrow>
            toXML sf self' others' = toXML sf self others)"
proof (intro conjI impI)
  let ?regs = "if length others = 0 then [self] else others"
  have c: "el_children (toXML sf self others) = map (registry_element sf) ?regs"
    by (simp add: toXML_def)
  show "el_children (toXML sf self others)
           = iterchildren (toXML sf self others) (xmlns_tag ''registry'')"
    unfolding iterchildren_toXML by (rule c)
  show "map element_name (el_children (toXML sf self others)) = map reg_name ?regs"
    unfolding c by (simp add: element_name_elements)
  have "registry_ordered (registry_element sf r)" if "r \<in> set ?regs" for r
    using that assms by (intro registry_element_ordered) (simp_all add: list_all_iff)
  then show "list_all registry_ordered (el_children (toXML sf self others))"
    unfolding c by (simp add: list_all_iff)
  show "toXML sf self' others' = toXML sf self others"
    if "same_registry self self' \<and> list_all2 same_registry others others'"
    using same_registries_toXML [of self self' others others' sf] that by simp
qed

subsection \<open>The example registry E\<close>

lemma bugs_test_full: "t_bugs test_full = [bug2, bug1]" "t_fixes test_full = [fix_rpm, fix_git]"
  "t_info test_full = [note_url, note_text]" "suite test_full = ''S''" "name test_full = ''T1''"
  "status test_full = True"
  by (simp_all add: test_full_def addBug_def addFix_def addInfo_def new_XITTest_def py_in_def
      XITBug_eq_def XITFix_eq_def XITInfo_eq_def bug1_def bug2_def fix_git_def fix_rpm_def
      note_text_def note_url_def)

lemma bugs_test_full_other: "t_bugs test_full_other = [bug1, bug2]"
  "t_fixes test_full_other = [fix_git, fix_rpm]"
  "t_info test_full_other = [note_text, note_url]" "suite test_full_other = ''S''"
  "name test_full_other = ''T1''" "status test_full_other = True"
  by (simp_all add: test_full_other_def addBug_def addFix_def addInfo_def new_XITTest_def py_in_def
      XITBug_eq_def XITFix_eq_def XITInfo_eq_def bug1_def bug2_def fix_git_def fix_rpm_def
      note_text_def note_url_def)

lemma tests_regE:
  "tests regE = [(''Z'', [(''T9'', new_XITTest ''Z'' ''T9'' False)]),
                 (''S'', [(''T1'', test_full), (''T0'', new_XITTest ''S'' ''T0'' True)])]"
  by (simp add: regE_def addTest_def reg_named_def new_XITTestRegistry_def has_key_def Let_def
      bugs_test_full) (simp add: new_XITTest_def)

lemma tests_regE_other:
  "tests regE_other = [(''S'', [(''T0'', new_XITTest ''S'' ''T0'' True), (''T1'', test_full_other)]),
                       (''Z'', [(''T9'', new_XITTest ''Z'' ''T9'' False)])]"
  by (simp add: regE_other_def addTest_def reg_named_def new_XITTestRegistry_def has_key_def Let_def
      bugs_test_full_other) (simp add: new_XITTest_def)

lemma regE_fields: "reg_name regE = ''E''" "date regE = (2013, 1, 31)" "moduleversions regE = []"
  "reg_name regE_other = ''E''" "date regE_other = (2013, 1, 31)" "moduleversions regE_other = []"
  by (simp_all add: regE_def regE_other_def addTest_def reg_named_def new_XITTestRegistry_def Let_def)

lemma wf_regE: "wf_registry regE"
  unfolding regE_def reg_named_def by (intro wf_registry_addTest wf_registry_new)

lemma fixes_ok_regE: "fixes_ok_registry regE"
  by (simp add: fixes_ok_registry_def tests_regE bugs_test_full fix_args_ok_def fix_git_def fix_rpm_def
      new_XITTest_def)

lemma same_test_full: "same_test test_full test_full_other"
  by (auto simp: same_test_def same_collection_def bugs_test_full bugs_test_full_other
      bug1_def bug2_def fix_git_def fix_rpm_def note_text_def note_url_def)

lemma same_regE: "same_registry regE regE_other"
  by (simp add: same_registry_def regE_fields tests_regE tests_regE_other same_dict_def same_test_full)
     (simp add: same_test_def same_collection_def new_XITTest_def)

lemma toXML_regE: "toXML strftime_fixed regE [regE] = docE"
  by (simp add: toXML_def registry_element_def meta_element_def regE_fields tests_regE
      sorted_items_def suite_element_def testcase_element_def bugs_test_full getBugs_def getFixes_def
      getInfo_def bug_element_def fix_element_def info_element_def fix_attrib_def strftime_fixed_def
      docE_def str_lower_def bug1_def bug2_def fix_git_def fix_rpm_def note_text_def note_url_def)
     (simp add: new_XITTest_def)

theorem toXML_order_witness:
  "list_all wf_registry [regE] \<and> list_all fixes_ok_registry [regE] \<and>
   same_registry regE regE_other \<and> tests regE \<noteq> tests regE_other \<and>
   toXML strftime_fixed regE [regE] = docE \<and>
   toXML strftime_fixed regE_other [regE_other] = docE \<and>
   map element_name (el_children docE) = [''E''] \<and>
   list_all registry_ordered (el_children docE)"
proof -
  have w: "list_all wf_registry (if length [regE] = 0 then [regE] else [regE])"
    by (simp add: wf_regE)
  have f: "list_all fixes_ok_registry (if length [regE] = 0 then [regE] else [regE])"
    by (simp add: fixes_ok_regE)
  have s: "same_registry regE regE_other \<and> list_all2 same_registry [regE] [regE_other]"
    by (simp add: same_regE)
  have n: "tests regE \<noteq> tests regE_other"
    by (simp add: tests_regE tests_regE_other)
  note t = toXML_order [OF w f, of strftime_fixed regE_other "[regE_other]"]
  from t have a: "map element_name (el_children (toXML strftime_fixed regE [regE]))
      = map reg_name (if length [regE] = 0 then [regE] else [regE])"
    by blast
  from t have b: "list_all registry_ordered (el_children (toXML strftime_fixed regE [regE]))"
    by blast
  from t s have c: "toXML strftime_fixed regE_other [regE_other] = toXML strftime_fixed regE [regE]"
    by blast
  from a b c show ?thesis
    using w f s n by (simp add: toXML_regE regE_fields)
qed

subsection \<open>Round trip of a test case\<close>

lemma map_of_fold_update:
  "map_of (fold (\<lambda>(x, y) a. AList.update x y a) a l) = map_of l ++ map_of (rev a)"
proof (induction a arbitrary: l)
  case Nil
  then show ?case by simp
next
  case (Cons p a)
  obtain k v where p: "p = (k, v)" by (cases p)
  have "map_of (AList.update k v l) ++ map_of (rev a) = map_of l ++ (map_of [(k, v)] ++ map_of (rev a))"
    by (simp add: update_conv' map_add_upd_left fun_eq_iff map_add_def split: option.splits)
  then show ?case by (simp add: Cons.IH p)
qed

lemma distinct_map_of_rev: "distinct (map fst xs) \<Longrightarrow> map_of (rev xs) = map_of xs"
proof -
  assume d: "distinct (map fst xs)"
  then have "distinct (map fst (rev xs))" by (simp add: rev_map [symmetric])
  from map_of_inject_set [OF this d] show ?thesis by simp
qed

lemma distinct_fold_update:
  "distinct (map fst l) \<Longrightarrow> distinct (map fst (fold (\<lambda>(x, y) a. AList.update x y a) a l))"
  by (induction a arbitrary: l) (auto simp: distinct_update)

lemma set_fold_update_same:
  assumes "distinct (map fst a)" "map_of a k = Some v"
  shows "set (fold (\<lambda>(x, y) a. AList.update x y a) a [(k, v)]) = set a"
proof -
  let ?l = "fold (\<lambda>(x, y) a. AList.update x y a) a [(k, v)]"
  have "map_of ?l = map_of [(k, v)] ++ map_of a"
    using assms(1) by (simp add: map_of_fold_update distinct_map_of_rev)
  also have "\<dots> = map_of a"
    using assms(2) by (auto simp: fun_eq_iff map_add_def split: option.splits)
  finally have "map_of ?l = map_of a" .
  moreover have "distinct (map fst ?l)" by (rule distinct_fold_update) simp
  ultimately show ?thesis using assms(1) by (simp add: map_of_inject_set)
qed

lemma fix_attrib_decoded:
  assumes "wf_fix_element e"
  shows "set (fix_attrib (decoded_fix e)) = set (el_attrib e)"
proof -
  from assms obtain ty where ty: "map_of (el_attrib e) ''type'' = Some ty"
    and d: "distinct (map fst (el_attrib e))"
    by (auto simp: wf_fix_element_def)
  then have "fix_type (decoded_fix e) = ty"
    by (simp add: decoded_fix_def element_key_def)
  then show ?thesis
    using set_fold_update_same [OF d ty] by (simp add: fix_attrib_def decoded_fix_def)
qed

lemma fix_args_ok_decoded:
  assumes "wf_fix_element e"
  shows "fix_args_ok (decoded_fix e)"
proof -
  from assms obtain ty where ty: "map_of (el_attrib e) ''type'' = Some ty"
    and d: "distinct (map fst (el_attrib e))"
    by (auto simp: wf_fix_element_def)
  have "v = ty" if "(''type'', v) \<in> set (el_attrib e)" for v
    using that ty map_of_eq_Some_iff [OF d, of "''type''" v] by simp
  then show ?thesis
    using ty by (auto simp: fix_args_ok_def decoded_fix_def element_key_def list_all_iff)
qed

lemma fix_sem_decoded:
  assumes "wf_fix_element e"
  shows "((fix_type (decoded_fix e), fix_text (decoded_fix e)), set (fix_attrib (decoded_fix e)))
           = fix_sem e"
proof -
  have "(fix_type (decoded_fix e), fix_text (decoded_fix e)) = element_key e"
    by (simp add: decoded_fix_def element_key_def)
  then show ?thesis
    by (simp add: fix_attrib_decoded [OF assms] fix_sem_def)
qed

lemma key_decoded_bug: "(bug_type (decoded_bug e), url (decoded_bug e)) = bug_sem e"
  by (simp add: decoded_bug_def)

lemma key_decoded_info: "(info_type (decoded_info e), info_text (decoded_info e)) = note_sem e"
  by (simp add: decoded_info_def)

lemma bug_image:
  "(\<lambda>b. (bug_type b, url b)) `
     set (fold (\<lambda>x xs. if py_in XITBug_eq x xs then xs else xs @ [x]) (map decoded_bug es) [])
   = bug_sem ` set es"
proof -
  have 1: "\<forall>a \<in> set [] \<union> set (map decoded_bug es). \<forall>b \<in> set [] \<union> set (map decoded_bug es).
          XITBug_eq a b \<longrightarrow> (bug_type a, url a) = (bug_type b, url b)"
    unfolding XITBug_eq_def by blast
  have 2: "\<forall>a. XITBug_eq a a" unfolding XITBug_eq_def by blast
  have "(\<lambda>b. (bug_type b, url b)) `
     set (fold (\<lambda>x xs. if py_in XITBug_eq x xs then xs else xs @ [x]) (map decoded_bug es) [])
     = (\<lambda>b. (bug_type b, url b)) ` set ([] :: XITBug list) \<union> (\<lambda>b. (bug_type b, url b)) ` set (map decoded_bug es)"
    using 1 2 by (rule dedup_fold_image)
  also have "\<dots> = (\<lambda>e. (bug_type (decoded_bug e), url (decoded_bug e))) ` set es"
    by (simp add: image_image)
  also have "\<dots> = bug_sem ` set es"
    unfolding key_decoded_bug ..
  finally show ?thesis .
qed

lemma info_image:
  "(\<lambda>i. (info_type i, info_text i)) `
     set (fold (\<lambda>x xs. if py_in XITInfo_eq x xs then xs else xs @ [x]) (map decoded_info es) [])
   = note_sem ` set es"
proof -
  have 1: "\<forall>a \<in> set [] \<union> set (map decoded_info es). \<forall>b \<in> set [] \<union> set (map decoded_info es).
          XITInfo_eq a b \<longrightarrow> (info_type a, info_text a) = (info_type b, info_text b)"
    unfolding XITInfo_eq_def by blast
  have 2: "\<forall>a. XITInfo_eq a a" unfolding XITInfo_eq_def by blast
  have "(\<lambda>i. (info_type i, info_text i)) `
     set (fold (\<lambda>x xs. if py_in XITInfo_eq x xs then xs else xs @ [x]) (map decoded_info es) [])
     = (\<lambda>i. (info_type i, info_text i)) ` set ([] :: XITInfo list) \<union>
       (\<lambda>i. (info_type i, info_text i)) ` set (map decoded_info es)"
    using 1 2 by (rule dedup_fold_image)
  also have "\<dots> = (\<lambda>e. (info_type (decoded_info e), info_text (decoded_info e))) ` set es"
    by (simp add: image_image)
  also have "\<dots> = note_sem ` set es"
    unfolding key_decoded_info ..
  finally show ?thesis .
qed

lemma fix_image:
  assumes wfx: "list_all wf_fix_element es" and cons: "fixes_consistent es"
  shows "(\<lambda>f. ((fix_type f, fix_text f), set (fix_attrib f))) `
     set (fold (\<lambda>x xs. if py_in XITFix_eq x xs then xs else xs @ [x]) (map decoded_fix es) [])
   = fix_sem ` set es"
proof -
  let ?\<sigma> = "\<lambda>f. ((fix_type f, fix_text f), set (fix_attrib f))"
  have sem_fix: "?\<sigma> (decoded_fix x) = fix_sem x" if "x \<in> set es" for x
  proof (rule fix_sem_decoded)
    from that wfx show "wf_fix_element x" by (simp add: list_all_iff)
  qed
  have 1: "\<forall>a \<in> set [] \<union> set (map decoded_fix es). \<forall>b \<in> set [] \<union> set (map decoded_fix es).
            XITFix_eq a b \<longrightarrow> ?\<sigma> a = ?\<sigma> b"
  proof (intro ballI impI)
    fix a b assume a: "a \<in> set [] \<union> set (map decoded_fix es)"
      and b: "b \<in> set [] \<union> set (map decoded_fix es)" and eq: "XITFix_eq a b"
    from a obtain x where x: "x \<in> set es" "a = decoded_fix x" by auto
    from b obtain y where y: "y \<in> set es" "b = decoded_fix y" by auto
    from eq have k: "element_key x = element_key y"
      unfolding x(2) y(2) XITFix_eq_def decoded_fix_def element_key_def by simp
    from cons x(1) y(1) have "element_key x = element_key y \<longrightarrow> set (el_attrib x) = set (el_attrib y)"
      unfolding fixes_consistent_def list_all_iff by blast
    with k have "fix_sem x = fix_sem y"
      unfolding fix_sem_def by simp
    then have "?\<sigma> (decoded_fix x) = ?\<sigma> (decoded_fix y)"
      unfolding sem_fix [OF x(1)] sem_fix [OF y(1)] .
    then show "?\<sigma> a = ?\<sigma> b" unfolding x(2) y(2) .
  qed
  have 2: "\<forall>a. XITFix_eq a a" unfolding XITFix_eq_def by blast
  have "?\<sigma> ` set (fold (\<lambda>x xs. if py_in XITFix_eq x xs then xs else xs @ [x]) (map decoded_fix es) [])
     = ?\<sigma> ` set ([] :: XITFix list) \<union> ?\<sigma> ` set (map decoded_fix es)"
    using 1 2 by (rule dedup_fold_image)
  also have "\<dots> = (\<lambda>x. ?\<sigma> (decoded_fix x)) ` set es"
    by (simp add: image_image)
  also have "\<dots> = fix_sem ` set es"
    by (rule image_cong) (simp_all only: sem_fix)
  finally show ?thesis .
qed

lemma fix_args_ok_fold:
  assumes wfx: "list_all wf_fix_element es"
  shows "list_all fix_args_ok
     (fold (\<lambda>x xs. if py_in XITFix_eq x xs then xs else xs @ [x]) (map decoded_fix es) [])"
proof -
  have "set (fold (\<lambda>x xs. if py_in XITFix_eq x xs then xs else xs @ [x]) (map decoded_fix es) [])
          \<subseteq> set ([] :: XITFix list) \<union> set (map decoded_fix es)"
    by (rule dedup_fold_set)
  moreover have "fix_args_ok (decoded_fix x)" if "x \<in> set es" for x
  proof (rule fix_args_ok_decoded)
    from that wfx show "wf_fix_element x" by (simp add: list_all_iff)
  qed
  ultimately show ?thesis unfolding list_all_iff by auto
qed

lemma parse_testcase_shape:
  assumes "wf_testcase_element e" "has_attrib suite_el ''name''"
  shows "\<exists>st. success_sem e = Some st \<and>
     parse_testcase suite_el e =
       Inr \<lparr>suite = element_name suite_el, name = element_name e, status = st,
            t_bugs = fold (\<lambda>x xs. if py_in XITBug_eq x xs then xs else xs @ [x])
                       (map decoded_bug (iterchildren e (xmlns_tag ''bug''))) [],
            t_info = fold (\<lambda>x xs. if py_in XITInfo_eq x xs then xs else xs @ [x])
                       (map decoded_info (iterchildren e (xmlns_tag ''testinfo''))) [],
            t_fixes = fold (\<lambda>x xs. if py_in XITFix_eq x xs then xs else xs @ [x])
                       (map decoded_fix (iterchildren e (xmlns_tag ''fix''))) []\<rparr>"
proof -
  from assms(2) obtain sn where sn0: "map_of (el_attrib suite_el) ''name'' = Some sn"
    unfolding has_attrib_def by blast
  then have sn: "attrib_get (el_attrib suite_el) ''name'' = Inr (element_name suite_el)"
    by (simp add: attrib_get_def element_name_def)
  from assms(1) have "has_attrib e ''name''" by (simp add: wf_testcase_element_def)
  then obtain tn where tn0: "map_of (el_attrib e) ''name'' = Some tn"
    unfolding has_attrib_def by blast
  then have tn: "attrib_get (el_attrib e) ''name'' = Inr (element_name e)"
    by (simp add: attrib_get_def element_name_def)
  from assms(1) have "success_sem e \<noteq> None" by (simp add: wf_testcase_element_def)
  then obtain st where st: "success_sem e = Some st" by blast
  then obtain sv where sv0: "map_of (el_attrib e) ''success'' = Some sv" and sb: "str2bool sv = Inr st"
    unfolding success_sem_def by (auto split: option.splits sum.splits)
  from sv0 have sv: "attrib_get (el_attrib e) ''success'' = Inr sv"
    by (simp add: attrib_get_def)
  from assms(1) have wi: "list_all wf_info_element (iterchildren e (xmlns_tag ''testinfo''))"
    and wfx: "list_all wf_fix_element (iterchildren e (xmlns_tag ''fix''))"
    by (simp_all add: wf_testcase_element_def)
  have "parse_testcase suite_el e =
       Inr \<lparr>suite = element_name suite_el, name = element_name e, status = st,
            t_bugs = fold (\<lambda>x xs. if py_in XITBug_eq x xs then xs else xs @ [x])
                       (map decoded_bug (iterchildren e (xmlns_tag ''bug''))) [],
            t_info = fold (\<lambda>x xs. if py_in XITInfo_eq x xs then xs else xs @ [x])
                       (map decoded_info (iterchildren e (xmlns_tag ''testinfo''))) [],
            t_fixes = fold (\<lambda>x xs. if py_in XITFix_eq x xs then xs else xs @ [x])
                       (map decoded_fix (iterchildren e (xmlns_tag ''fix''))) []\<rparr>"
    by (simp add: parse_testcase_def sn tn sv sb bind_err_def parse_bugs
        parse_infos [OF wi] parse_fixes [OF wfx] new_XITTest_def)
  with st show ?thesis by blast
qed

lemma parse_testcase_wf:
  assumes "wf_testcase_element e" "has_attrib suite_el ''name''"
  shows "\<exists>t. parse_testcase suite_el e = Inr t \<and> suite t = element_name suite_el \<and>
           name t = element_name e \<and> test_sem (element_name suite_el) t = testcase_sem suite_el e \<and>
           list_all fix_args_ok (t_fixes t)"
proof -
  from parse_testcase_shape [OF assms] obtain st where st: "success_sem e = Some st"
    and p: "parse_testcase suite_el e =
       Inr \<lparr>suite = element_name suite_el, name = element_name e, status = st,
            t_bugs = fold (\<lambda>x xs. if py_in XITBug_eq x xs then xs else xs @ [x])
                       (map decoded_bug (iterchildren e (xmlns_tag ''bug''))) [],
            t_info = fold (\<lambda>x xs. if py_in XITInfo_eq x xs then xs else xs @ [x])
                       (map decoded_info (iterchildren e (xmlns_tag ''testinfo''))) [],
            t_fixes = fold (\<lambda>x xs. if py_in XITFix_eq x xs then xs else xs @ [x])
                       (map decoded_fix (iterchildren e (xmlns_tag ''fix''))) []\<rparr>"
    by blast
  from assms(1) have wfx: "list_all wf_fix_element (iterchildren e (xmlns_tag ''fix''))"
    and cons: "fixes_consistent (iterchildren e (xmlns_tag ''fix''))"
    by (simp_all add: wf_testcase_element_def)
  show ?thesis
    unfolding p
    by (simp add: test_sem_def testcase_sem_def st bug_image info_image fix_image [OF wfx cons]
        fix_args_ok_fold [OF wfx])
qed

lemma decoded_testcase_wf:
  assumes "wf_testcase_element e" "has_attrib suite_el ''name''"
  shows "parse_testcase suite_el e = Inr (decoded_testcase suite_el e)"
    and "suite (decoded_testcase suite_el e) = element_name suite_el"
    and "name (decoded_testcase suite_el e) = element_name e"
    and "test_sem (element_name suite_el) (decoded_testcase suite_el e) = testcase_sem suite_el e"
    and "list_all fix_args_ok (t_fixes (decoded_testcase suite_el e))"
  using parse_testcase_wf [OF assms] by (auto simp: decoded_testcase_def)

subsection \<open>Round trip of a registry\<close>

lemma str2bool_str_lower: "str2bool (str_lower b) = Inr b"
  by (simp add: str2bool_def str_lower_def)

lemma success_sem_testcase_element: "success_sem (testcase_element t) = Some (status t)"
  by (simp add: success_sem_def testcase_element_def str2bool_str_lower)

lemma bug_sem_bug_element: "bug_sem (bug_element b) = (bug_type b, url b)"
  by (simp add: bug_sem_def bug_element_def)

lemma note_sem_info_element: "note_sem (info_element i) = (info_type i, info_text i)"
  by (simp add: note_sem_def info_element_def)

lemma fix_sem_fix_element:
  "fix_args_ok f \<Longrightarrow> fix_sem (fix_element f) = ((fix_type f, fix_text f), set (fix_attrib f))"
  by (simp add: fix_sem_def element_key_elements) (simp add: fix_element_def)

lemma testcase_sem_encoded:
  assumes "list_all fix_args_ok (t_fixes t)"
  shows "testcase_sem (suite_element (s, d)) (testcase_element t) = test_sem s t"
proof -
  have b: "bug_sem ` set (iterchildren (testcase_element t) (xmlns_tag ''bug''))
         = (\<lambda>b. (bug_type b, url b)) ` set (t_bugs t)"
    by (simp add: iterchildren_testcase_element image_image bug_sem_bug_element getBugs_def)
  have i: "note_sem ` set (iterchildren (testcase_element t) (xmlns_tag ''testinfo''))
         = (\<lambda>i. (info_type i, info_text i)) ` set (t_info t)"
    by (simp add: iterchildren_testcase_element image_image note_sem_info_element getInfo_def)
  have "fix_sem ` set (iterchildren (testcase_element t) (xmlns_tag ''fix''))
         = (\<lambda>f. fix_sem (fix_element f)) ` set (t_fixes t)"
    by (simp add: iterchildren_testcase_element image_image getFixes_def)
  also have "\<dots> = (\<lambda>f. ((fix_type f, fix_text f), set (fix_attrib f))) ` set (t_fixes t)"
    using assms by (intro image_cong) (simp_all add: fix_sem_fix_element list_all_iff)
  finally have f: "fix_sem ` set (iterchildren (testcase_element t) (xmlns_tag ''fix''))
         = (\<lambda>f. ((fix_type f, fix_text f), set (fix_attrib f))) ` set (t_fixes t)" .
  show ?thesis
    unfolding testcase_sem_def test_sem_def b i f
    by (simp add: element_name_elements success_sem_testcase_element)
qed

lemma registry_sem_encoded:
  assumes "fixes_ok_registry r"
  shows "registry_sem (registry_element sf r)
       = (reg_name r, (\<Union>sd \<in> set (tests r). (\<lambda>nt. test_sem (fst sd) (snd nt)) ` set (snd sd)))"
proof -
  have "testcase_sem (suite_element sd) ` set (iterchildren (suite_element sd) (xmlns_tag ''testcase''))
      = (\<lambda>nt. test_sem (fst sd) (snd nt)) ` set (snd sd)" if "sd \<in> set (tests r)" for sd
  proof -
    obtain s d where sd: "sd = (s, d)" by (cases sd)
    have ok: "list_all fix_args_ok (t_fixes (snd nt))" if "nt \<in> set d" for nt
      using assms \<open>sd \<in> set (tests r)\<close> that unfolding fixes_ok_registry_def list_all_iff sd by force
    have "testcase_sem (suite_element (s, d)) ` set (iterchildren (suite_element (s, d)) (xmlns_tag ''testcase''))
        = (\<lambda>nt. testcase_sem (suite_element (s, d)) (testcase_element (snd nt))) ` set d"
      by (simp add: iterchildren_suite_element image_image set_sorted_items split_beta)
    also have "\<dots> = (\<lambda>nt. test_sem s (snd nt)) ` set d"
      by (intro image_cong refl testcase_sem_encoded ok)
    finally show ?thesis by (simp add: sd)
  qed
  then show ?thesis
    by (simp add: registry_sem_def iterchildren_registry_element set_sorted_items element_name_elements)
qed

lemma fold_err_preserve:
  assumes "\<forall>x \<in> set xs. \<forall>s. \<exists>s'. f x s = Inr s' \<and> g s' = g s"
  shows "\<exists>s'. fold_err f xs s = Inr s' \<and> g s' = g s"
  using assms
proof (induction xs arbitrary: s)
  case Nil
  then show ?case by simp
next
  case (Cons x xs)
  from Cons.prems have "\<exists>s1. f x s = Inr s1 \<and> g s1 = g s" by simp
  then obtain s1 where s1: "f x s = Inr s1" "g s1 = g s" by blast
  from Cons.prems have "\<forall>x \<in> set xs. \<forall>s. \<exists>s'. f x s = Inr s' \<and> g s' = g s" by simp
  from Cons.IH [OF this, of s1] obtain s' where "fold_err f xs s1 = Inr s'" "g s' = g s1" by blast
  with s1 show ?case by simp
qed

lemma parse_meta_wf:
  assumes "wf_meta_element strptime m"
  shows "\<exists>r'. parse_meta strptime m r = Inr r' \<and> (tests r', reg_name r') = (tests r, reg_name r)"
proof -
  from assms have d: "case find_child m (xmlns_tag ''date'') of None \<Rightarrow> True
                      | Some d \<Rightarrow> is_ok (strptime (el_text d))"
    and mv: "list_all (\<lambda>mv. has_attrib mv ''name'') (iterchildren m (xmlns_tag ''moduleversion''))"
    by (simp_all add: wf_meta_element_def)
  from d obtain r1 where r1: "(case find_child m (xmlns_tag ''date'') of
                 None \<Rightarrow> Inr r
               | Some d \<Rightarrow> bind_err (strptime (el_text d)) (\<lambda>t. Inr (r\<lparr>date := t\<rparr>))) = Inr r1"
    "(tests r1, reg_name r1) = (tests r, reg_name r)"
    by (auto simp: is_ok_def bind_err_def split: option.splits sum.splits)
  let ?f = "\<lambda>modversion r.
                   bind_err (parse_moduleversion modversion) (\<lambda>mv.
                     Inr (r\<lparr>moduleversions := moduleversions r @ [mv]\<rparr>))"
  have "\<forall>x \<in> set (iterchildren m (xmlns_tag ''moduleversion'')). \<forall>s. \<exists>s'. ?f x s = Inr s' \<and>
          (tests s', reg_name s') = (tests s, reg_name s)"
    using mv by (auto simp: list_all_iff has_attrib_def parse_moduleversion_def attrib_get_def
        bind_err_def Let_def)
  from fold_err_preserve [OF this, of r1] obtain r' where
    "fold_err ?f (iterchildren m (xmlns_tag ''moduleversion'')) r1 = Inr r'"
    "(tests r', reg_name r') = (tests r1, reg_name r1)" by blast
  with r1 show ?thesis by (simp add: parse_meta_def bind_err_def)
qed

lemma parse_metas_wf:
  assumes "list_all (wf_meta_element strptime) ms"
  shows "\<exists>r'. fold_err (parse_meta strptime) ms r = Inr r' \<and> (tests r', reg_name r') = (tests r, reg_name r)"
proof (rule fold_err_preserve [where g = "\<lambda>r. (tests r, reg_name r)"], intro ballI allI)
  fix x s assume "x \<in> set ms"
  with assms have "wf_meta_element strptime x" by (simp add: list_all_iff)
  then show "\<exists>s'. parse_meta strptime x s = Inr s' \<and> (tests s', reg_name s') = (tests s, reg_name s)"
    by (rule parse_meta_wf)
qed

lemma parse_suite_wf:
  assumes "wf_suite_element s"
  shows "parse_suite s r
       = Inr (fold (\<lambda>e r. addTest r (decoded_testcase s e)) (iterchildren s (xmlns_tag ''testcase'')) r)"
  unfolding parse_suite_def
proof (rule fold_err_Inr, intro ballI allI)
  fix e r assume e: "e \<in> set (iterchildren s (xmlns_tag ''testcase''))"
  with assms have "wf_testcase_element e" "has_attrib s ''name''"
    by (auto simp: wf_suite_element_def list_all_iff)
  then have "parse_testcase s e = Inr (decoded_testcase s e)"
    by (rule decoded_testcase_wf(1))
  then show "bind_err (parse_testcase s e) (\<lambda>tcase. Inr (addTest r tcase))
           = Inr (addTest r (decoded_testcase s e))"
    by (simp add: bind_err_def)
qed

lemma fold_nested:
  "fold (\<lambda>s r. fold (\<lambda>e r. h r (dec s e)) (cs s) r) ss r
     = fold (\<lambda>t r. h r t) (concat (map (\<lambda>s. map (dec s) (cs s)) ss)) r"
  by (induction ss arbitrary: r) (simp_all add: fold_map comp_def)

lemma parse_suites_wf:
  assumes "list_all wf_suite_element ss"
  shows "fold_err parse_suite ss r
       = Inr (fold (\<lambda>t r. addTest r t)
                (concat (map (\<lambda>s. map (decoded_testcase s) (iterchildren s (xmlns_tag ''testcase''))) ss)) r)"
proof -
  have "fold_err parse_suite ss r
      = Inr (fold (\<lambda>s r. fold (\<lambda>e r. addTest r (decoded_testcase s e))
                               (iterchildren s (xmlns_tag ''testcase'')) r) ss r)"
    using assms by (intro fold_err_Inr) (simp add: list_all_iff parse_suite_wf)
  also have "fold (\<lambda>s r. fold (\<lambda>e r. addTest r (decoded_testcase s e))
                               (iterchildren s (xmlns_tag ''testcase'')) r) ss r
      = fold (\<lambda>t r. addTest r t)
          (concat (map (\<lambda>s. map (decoded_testcase s) (iterchildren s (xmlns_tag ''testcase''))) ss)) r"
    by (rule fold_nested [where h = addTest and dec = decoded_testcase
          and cs = "\<lambda>s. iterchildren s (xmlns_tag ''testcase'')"])
  finally show ?thesis .
qed

lemma getTest_fold_addTest:
  "distinct (map (\<lambda>t. (suite t, name t)) ts) \<Longrightarrow>
   getTest (fold (\<lambda>t r. addTest r t) ts r) s n =
     (case find (\<lambda>t. suite t = s \<and> name t = n) ts of Some t \<Rightarrow> Some t | None \<Rightarrow> getTest r s n)"
proof (induction ts arbitrary: r)
  case Nil
  then show ?case by simp
next
  case (Cons t ts)
  have none: "find (\<lambda>u. suite u = s \<and> name u = n) ts = None" if "suite t = s \<and> name t = n"
  proof -
    from Cons.prems that have "(s, n) \<notin> (\<lambda>t. (suite t, name t)) ` set ts" by auto
    then show ?thesis by (auto simp: find_None_iff)
  qed
  from Cons.prems have "distinct (map (\<lambda>t. (suite t, name t)) ts)" by simp
  from Cons.IH [OF this, of "addTest r t"] none show ?case
    by (auto simp: getTest_addTest split: option.splits)
qed

lemma wf_registry_fold_addTest:
  "wf_registry r \<Longrightarrow> wf_registry (fold (\<lambda>t r. addTest r t) ts r)"
  by (induction ts arbitrary: r) (simp_all add: wf_registry_addTest)

lemma wf_registry_entries:
  assumes "wf_registry r"
  shows "(\<exists>d. (s, d) \<in> set (tests r) \<and> (n, t) \<in> set d) \<longleftrightarrow> getTest r s n = Some t"
proof
  assume "\<exists>d. (s, d) \<in> set (tests r) \<and> (n, t) \<in> set d"
  then have "(s, n, status t) \<in> set (listTestNames r)" by (auto simp: listTestNames_iff)
  from listTestNames_getTest [OF assms this] obtain u where u: "getTest r s n = Some u" by blast
  from \<open>\<exists>d. (s, d) \<in> set (tests r) \<and> (n, t) \<in> set d\<close> obtain d where d: "(s, d) \<in> set (tests r)" "(n, t) \<in> set d"
    by blast
  from assms d(1) have "map_of (tests r) s = Some d" "distinct (map fst d)"
    by (auto simp: wf_registry_def wf_suite_def list_all_iff)
  with d(2) show "getTest r s n = Some t" by (simp add: getTest_def)
next
  assume "getTest r s n = Some t"
  then show "\<exists>d. (s, d) \<in> set (tests r) \<and> (n, t) \<in> set d"
    by (auto simp: getTest_def split: option.splits dest!: map_of_SomeD)
qed

lemma registry_tests_image:
  assumes "wf_registry r"
  shows "(\<Union>sd \<in> set (tests r). (\<lambda>nt. F (fst sd) (snd nt)) ` set (snd sd))
       = {F s t | s n t. getTest r s n = Some t}"
proof (intro set_eqI iffI)
  fix x assume "x \<in> (\<Union>sd \<in> set (tests r). (\<lambda>nt. F (fst sd) (snd nt)) ` set (snd sd))"
  then obtain s d n t where "(s, d) \<in> set (tests r)" "(n, t) \<in> set d" "x = F s t" by force
  with wf_registry_entries [OF assms, of s n t] show "x \<in> {F s t | s n t. getTest r s n = Some t}"
    by blast
next
  fix x assume "x \<in> {F s t | s n t. getTest r s n = Some t}"
  then obtain s n t where g: "getTest r s n = Some t" and x: "x = F s t" by blast
  from wf_registry_entries [OF assms, of s n t] g obtain d where "(s, d) \<in> set (tests r)" "(n, t) \<in> set d"
    by blast
  with x show "x \<in> (\<Union>sd \<in> set (tests r). (\<lambda>nt. F (fst sd) (snd nt)) ` set (snd sd))" by force
qed

lemma getTest_built:
  assumes "distinct (map (\<lambda>t. (suite t, name t)) ts)" "tests r = []"
  shows "getTest (fold (\<lambda>t r. addTest r t) ts r) s n = Some t \<longleftrightarrow>
           t \<in> set ts \<and> suite t = s \<and> name t = n"
proof -
  have r: "getTest r s n = None" using assms(2) by (simp add: getTest_def)
  show ?thesis
  proof
    assume "getTest (fold (\<lambda>t r. addTest r t) ts r) s n = Some t"
    then have "find (\<lambda>t. suite t = s \<and> name t = n) ts = Some t"
      unfolding getTest_fold_addTest [OF assms(1)] r by (simp split: option.splits)
    then show "t \<in> set ts \<and> suite t = s \<and> name t = n"
      by (auto simp: find_Some_iff)
  next
    assume t: "t \<in> set ts \<and> suite t = s \<and> name t = n"
    then obtain u where u: "find (\<lambda>t. suite t = s \<and> name t = n) ts = Some u"
      by (cases "find (\<lambda>t. suite t = s \<and> name t = n) ts") (auto simp: find_None_iff)
    then have u': "u \<in> set ts" "suite u = s" "name u = n" by (auto simp: find_Some_iff)
    from assms(1) have "inj_on (\<lambda>t. (suite t, name t)) (set ts)" by (simp add: distinct_map)
    with t u' have "u = t" by (auto dest: inj_onD)
    with u show "getTest (fold (\<lambda>t r. addTest r t) ts r) s n = Some t"
      unfolding getTest_fold_addTest [OF assms(1)] by simp
  qed
qed

lemma reg_name_fold_addTest: "reg_name (fold (\<lambda>t r. addTest r t) ts r) = reg_name r"
  by (induction ts arbitrary: r) (simp_all add: addTest_def Let_def)

lemma parse_registry_wf:
  assumes "wf_registry_element strptime e"
  shows "\<exists>reg. parse_registry strptime localtime filename e = Inr reg \<and> wf_registry reg \<and>
           fixes_ok_registry reg \<and> registry_sem (registry_element sf reg) = registry_sem e"
proof -
  let ?suites = "iterchildren e (xmlns_tag ''testsuite'')"
  let ?cases = "\<lambda>s. iterchildren s (xmlns_tag ''testcase'')"
  let ?ts = "concat (map (\<lambda>s. map (decoded_testcase s) (?cases s)) ?suites)"
  from assms have nm0: "has_attrib e ''name''"
    and wm: "list_all (wf_meta_element strptime) (iterchildren e (xmlns_tag ''meta''))"
    and ws: "list_all wf_suite_element ?suites"
    and di: "distinct (document_identities e)"
    by (simp_all add: wf_registry_element_def)
  from nm0 have nm: "attrib_get (el_attrib e) ''name'' = Inr (element_name e)"
    by (auto simp: has_attrib_def attrib_get_def element_name_def)
  from parse_metas_wf [OF wm, of "new_XITTestRegistry localtime (element_name e) filename"]
  obtain r1 where r1: "fold_err (parse_meta strptime) (iterchildren e (xmlns_tag ''meta''))
                         (new_XITTestRegistry localtime (element_name e) filename) = Inr r1"
    and r1t: "tests r1 = []" and r1n: "reg_name r1 = element_name e"
    by (auto simp: new_XITTestRegistry_def)
  define reg where "reg = fold (\<lambda>t r. addTest r t) ?ts r1"
  have p: "parse_registry strptime localtime filename e = Inr reg"
    by (simp add: parse_registry_def bind_err_def nm r1 parse_suites_wf [OF ws] reg_def)
  have wf1: "wf_registry r1" using r1t by (simp add: wf_registry_def)
  have wf: "wf_registry reg" unfolding reg_def using wf1 by (rule wf_registry_fold_addTest)
  have dec: "suite (decoded_testcase s c) = element_name s \<and> name (decoded_testcase s c) = element_name c \<and>
             test_sem (element_name s) (decoded_testcase s c) = testcase_sem s c \<and>
             list_all fix_args_ok (t_fixes (decoded_testcase s c))"
    if "s \<in> set ?suites" "c \<in> set (?cases s)" for s c
  proof -
    from that ws have "wf_testcase_element c" "has_attrib s ''name''"
      by (auto simp: wf_suite_element_def list_all_iff)
    then show ?thesis by (simp add: decoded_testcase_wf)
  qed
  have ids: "map (\<lambda>t. (suite t, name t)) ?ts = document_identities e"
    unfolding document_identities_def map_concat
    by (rule arg_cong [where f = concat]) (simp add: dec)
  have dts: "distinct (map (\<lambda>t. (suite t, name t)) ?ts)"
    unfolding ids by (rule di)
  have get: "getTest reg s n = Some t \<longleftrightarrow> t \<in> set ?ts \<and> suite t = s \<and> name t = n" for s n t
    unfolding reg_def by (rule getTest_built [OF dts r1t])
  have ok_ts: "list_all fix_args_ok (t_fixes t)" if "t \<in> set ?ts" for t
    using that dec by auto
  have ok_entry: "list_all fix_args_ok (t_fixes (snd nt))"
    if "sd \<in> set (tests reg)" "nt \<in> set (snd sd)" for sd nt
  proof -
    from that have "\<exists>d. (fst sd, d) \<in> set (tests reg) \<and> (fst nt, snd nt) \<in> set d"
      by (intro exI [of _ "snd sd"]) simp
    then have "getTest reg (fst sd) (fst nt) = Some (snd nt)"
      using wf_registry_entries [OF wf, of "fst sd" "fst nt" "snd nt"] by simp
    then have "snd nt \<in> set ?ts" unfolding get by simp
    then show ?thesis by (rule ok_ts)
  qed
  have ok: "fixes_ok_registry reg"
    unfolding fixes_ok_registry_def using ok_entry by (simp add: list_all_iff)
  have "{test_sem s t | s n t. getTest reg s n = Some t} = (\<lambda>t. test_sem (suite t) t) ` set ?ts"
    unfolding get by auto
  also have "\<dots> = (\<Union>s \<in> set ?suites. testcase_sem s ` set (?cases s))"
  proof (intro set_eqI iffI)
    fix x assume "x \<in> (\<lambda>t. test_sem (suite t) t) ` set ?ts"
    then obtain s c where sc: "s \<in> set ?suites" "c \<in> set (?cases s)"
      and x: "x = test_sem (suite (decoded_testcase s c)) (decoded_testcase s c)"
      by auto
    from dec [OF sc] x have "x = testcase_sem s c" by simp
    with sc show "x \<in> (\<Union>s \<in> set ?suites. testcase_sem s ` set (?cases s))" by blast
  next
    fix x assume "x \<in> (\<Union>s \<in> set ?suites. testcase_sem s ` set (?cases s))"
    then obtain s c where sc: "s \<in> set ?suites" "c \<in> set (?cases s)" and x: "x = testcase_sem s c"
      by blast
    from dec [OF sc] x have "x = test_sem (suite (decoded_testcase s c)) (decoded_testcase s c)" by simp
    moreover from sc have "decoded_testcase s c \<in> set ?ts" by auto
    ultimately show "x \<in> (\<lambda>t. test_sem (suite t) t) ` set ?ts" by blast
  qed
  finally have sems: "{test_sem s t | s n t. getTest reg s n = Some t}
        = (\<Union>s \<in> set ?suites. testcase_sem s ` set (?cases s))" .
  have "registry_sem (registry_element sf reg)
      = (reg_name reg, {test_sem s t | s n t. getTest reg s n = Some t})"
    unfolding registry_sem_encoded [OF ok] registry_tests_image [OF wf] ..
  also have "\<dots> = registry_sem e"
    unfolding sems registry_sem_def by (simp add: reg_def reg_name_fold_addTest r1n)
  finally show ?thesis using p wf ok by blast
qed

end
